theory Spec2Isabelle
  imports Main "HOL-Library.FSet" "HOL-Library.Char_ord" "HOL-Library.List_Lexorder"
begin

section \<open>publish-gist.py: strings and the library functions the script calls\<close>

text \<open>
  A Python \<open>str\<close> is modelled as a \<open>string\<close>: every \<open>char\<close> stands for one code point in
  the range 0..255.  Texts with code points above 255 are outside the model.  \<open>os.path\<close> is
  \<open>posixpath\<close>.
\<close>

text \<open>\<open>str.rfind\<close> for a needle of one character: the highest index, or -1.\<close>

definition rfind :: "char \<Rightarrow> string \<Rightarrow> int" where
  "rfind c s =
     (if c \<in> set s then int (length s) - 1 - int (length (takeWhile (\<lambda>x. x \<noteq> c) (rev s)))
      else - 1)"

text \<open>\<open>posixpath.basename\<close>: \<open>i = p.rfind('/') + 1; return p[i:]\<close>.\<close>

definition basename :: "string \<Rightarrow> string" where
  "basename p = drop (nat (rfind (CHR ''/'') p + 1)) p"

text \<open>
  \<open>posixpath.splitext\<close> (\<open>genericpath._splitext\<close> with \<open>sep = '/'\<close>, no \<open>altsep\<close>,
  \<open>extsep = '.'\<close>): split at the last dot when it lies after the last separator and
  some character between that separator and the dot is not a dot.
\<close>

definition splitext :: "string \<Rightarrow> string \<times> string" where
  "splitext p =
     (let sepIndex = rfind (CHR ''/'') p; dotIndex = rfind (CHR ''.'') p
      in if dotIndex > sepIndex \<and>
            list_ex (\<lambda>c. c \<noteq> CHR ''.'') (drop (nat (sepIndex + 1)) (take (nat dotIndex) p))
         then (take (nat dotIndex) p, drop (nat dotIndex) p)
         else (p, []))"

text \<open>\<open>s.replace(" ", "-")\<close>: the needle is one character, so every space becomes a hyphen.\<close>

definition replace_space :: "string \<Rightarrow> string" where
  "replace_space s = map (\<lambda>c. if c = CHR '' '' then CHR ''-'' else c) s"

text \<open>\<open>str(n)\<close> for a non-negative integer, as the f-string \<open>{counter}\<close> formats it.\<close>

definition digit_char :: "nat \<Rightarrow> char" where
  "digit_char d = ''0123456789'' ! d"

fun str_nat :: "nat \<Rightarrow> string" where
  "str_nat n = (if n < 10 then [digit_char n] else str_nat (n div 10) @ [digit_char (n mod 10)])"

declare str_nat.simps [simp del]

text \<open>\<open>s.startswith(p)\<close>.\<close>

definition startswith :: "string \<Rightarrow> string \<Rightarrow> bool" where
  "startswith s p = (take (length p) s = p)"

section \<open>The regular expressions of the script\<close>

text \<open>
  The script uses \<open>re\<close> with patterns built from literals, character sets, \<open>*\<close> and \<open>+\<close>
  on a single character, and capturing groups that are neither nested nor repeated.  A
  pattern is a list of nodes.  \<open>Mark\<close> stands for a parenthesis of a capturing group:
  the matcher cuts the matched text there, so a match is reported as the list of the
  pieces between the marks.
\<close>

datatype atom = Lit char | Among "char list" | NotAmong "char list"

datatype node = Atom atom | Star atom | Plus atom | Mark

text \<open>
  \<open>re.IGNORECASE\<close> compares the lower-cased characters; on the code points 0..255 the
  lower-casing of \<open>re\<close> maps A-Z and the letters 0xC0-0xDE other than 0xD7 up by 32.
\<close>

definition upper_case :: "char list" where
  "upper_case =
     ''ABCDEFGHIJKLMNOPQRSTUVWXYZ'' @
     [CHR 0xC0, CHR 0xC1, CHR 0xC2, CHR 0xC3, CHR 0xC4, CHR 0xC5, CHR 0xC6, CHR 0xC7,
      CHR 0xC8, CHR 0xC9, CHR 0xCA, CHR 0xCB, CHR 0xCC, CHR 0xCD, CHR 0xCE, CHR 0xCF,
      CHR 0xD0, CHR 0xD1, CHR 0xD2, CHR 0xD3, CHR 0xD4, CHR 0xD5, CHR 0xD6, CHR 0xD8,
      CHR 0xD9, CHR 0xDA, CHR 0xDB, CHR 0xDC, CHR 0xDD, CHR 0xDE]"

definition lower_case :: "char list" where
  "lower_case =
     ''abcdefghijklmnopqrstuvwxyz'' @
     [CHR 0xE0, CHR 0xE1, CHR 0xE2, CHR 0xE3, CHR 0xE4, CHR 0xE5, CHR 0xE6, CHR 0xE7,
      CHR 0xE8, CHR 0xE9, CHR 0xEA, CHR 0xEB, CHR 0xEC, CHR 0xED, CHR 0xEE, CHR 0xEF,
      CHR 0xF0, CHR 0xF1, CHR 0xF2, CHR 0xF3, CHR 0xF4, CHR 0xF5, CHR 0xF6, CHR 0xF8,
      CHR 0xF9, CHR 0xFA, CHR 0xFB, CHR 0xFC, CHR 0xFD, CHR 0xFE]"

definition lower :: "char \<Rightarrow> char" where
  "lower c = (case map_of (zip upper_case lower_case) c of None \<Rightarrow> c | Some d \<Rightarrow> d)"

fun amatch :: "bool \<Rightarrow> atom \<Rightarrow> char \<Rightarrow> bool" where
  "amatch ic (Lit x) c = (if ic then lower c = lower x else c = x)"
| "amatch ic (Among xs) c = (if ic then lower c \<in> lower ` set xs else c \<in> set xs)"
| "amatch ic (NotAmong xs) c = (\<not> (if ic then lower c \<in> lower ` set xs else c \<in> set xs))"

fun push :: "char \<Rightarrow> string list \<times> string \<Rightarrow> string list \<times> string" where
  "push c ([], r) = ([[c]], r)"
| "push c (g # gs, r) = ((c # g) # gs, r)"

text \<open>
  The backtracking matcher, anchored at the start of \<open>s\<close>: the pieces of the first match
  in the order \<open>re\<close> tries them (a greedy repetition takes one more character first and
  gives it back when the rest of the pattern fails), and the text after the match.
\<close>

fun rmatch :: "bool \<Rightarrow> node list \<Rightarrow> string \<Rightarrow> (string list \<times> string) option" where
  "rmatch ic [] s = Some ([[]], s)"
| "rmatch ic (Mark # ps) s = map_option (\<lambda>(gs, r). ([] # gs, r)) (rmatch ic ps s)"
| "rmatch ic (Atom a # ps) [] = None"
| "rmatch ic (Atom a # ps) (c # cs) =
     (if amatch ic a c then map_option (push c) (rmatch ic ps cs) else None)"
| "rmatch ic (Plus a # ps) [] = None"
| "rmatch ic (Plus a # ps) (c # cs) =
     (if amatch ic a c then map_option (push c) (rmatch ic (Star a # ps) cs) else None)"
| "rmatch ic (Star a # ps) [] = rmatch ic ps []"
| "rmatch ic (Star a # ps) (c # cs) =
     (if amatch ic a c
      then (case rmatch ic (Star a # ps) cs of
              Some m \<Rightarrow> Some (push c m)
            | None \<Rightarrow> rmatch ic ps (c # cs))
      else rmatch ic ps (c # cs))"

text \<open>
  \<open>re.finditer\<close>: the matches from left to right, each search starting where the last
  match ended.  The patterns of the script start with a literal, so no match is empty;
  after an empty match the scan moves one character on.
\<close>

function finditer :: "bool \<Rightarrow> node list \<Rightarrow> string \<Rightarrow> string list list" where
  "finditer ic pat [] = (case rmatch ic pat [] of None \<Rightarrow> [] | Some (gs, r) \<Rightarrow> [gs])"
| "finditer ic pat (c # cs) =
     (case rmatch ic pat (c # cs) of
        None \<Rightarrow> finditer ic pat cs
      | Some (gs, r) \<Rightarrow>
          if length r < length (c # cs) then gs # finditer ic pat r
          else gs # finditer ic pat cs)"
  by pat_completeness auto
termination
  by (relation "measure (\<lambda>(ic, pat, s). length s)") auto

text \<open>
  \<open>re.sub(pattern, template, string)\<close> for the two templates of the script, which are
  \<open>\1\<close>, a text, \<open>\3\<close> over a pattern of three groups: \<open>repl\<close> gives the
  replacement from the pieces of the match.
\<close>

function resub :: "bool \<Rightarrow> node list \<Rightarrow> (string list \<Rightarrow> string) \<Rightarrow> string \<Rightarrow> string" where
  "resub ic pat repl [] = (case rmatch ic pat [] of None \<Rightarrow> [] | Some (gs, r) \<Rightarrow> repl gs)"
| "resub ic pat repl (c # cs) =
     (case rmatch ic pat (c # cs) of
        None \<Rightarrow> c # resub ic pat repl cs
      | Some (gs, r) \<Rightarrow>
          if length r < length (c # cs) then repl gs @ resub ic pat repl r
          else repl gs @ c # resub ic pat repl cs)"
  by pat_completeness auto
termination
  by (relation "measure (\<lambda>(ic, pat, repl, s). length s)") auto

text \<open>\<open>re.escape(s)\<close> as a pattern: the characters of \<open>s\<close>, each matched literally.\<close>

definition re_escape :: "string \<Rightarrow> node list" where
  "re_escape s = map (\<lambda>c. Atom (Lit c)) s"

section \<open>find\_local\_image\_refs\<close>

text \<open>\<^verbatim>\<open>!\[[^\]]*\]\(([^)]+)\)\<close>\<close>

definition md_image_re :: "node list" where
  "md_image_re =
     [Atom (Lit (CHR ''!'')), Atom (Lit (CHR ''['')), Star (NotAmong '']''),
      Atom (Lit (CHR '']'')), Atom (Lit (CHR ''('')),
      Mark, Plus (NotAmong '')''), Mark,
      Atom (Lit (CHR '')''))]"

text \<open>\<^verbatim>\<open><img[^>]+src=["\']([^"\']+)["\']\<close>, used with \<open>re.IGNORECASE\<close>\<close>

definition img_tag_re :: "node list" where
  "img_tag_re =
     re_escape ''<img'' @ [Plus (NotAmong ''>'')] @ re_escape ''src='' @
     [Atom (Among [CHR 0x22, CHR 0x27]),
      Mark, Plus (NotAmong [CHR 0x22, CHR 0x27]), Mark,
      Atom (Among [CHR 0x22, CHR 0x27])]"

text \<open>\<open>match.group(1)\<close> for a pattern whose only group lies between two marks.\<close>

definition group1 :: "string list \<Rightarrow> string" where
  "group1 gs = gs ! 1"

definition is_url :: "string \<Rightarrow> bool" where
  "is_url path = (startswith path ''http://'' \<or> startswith path ''https://'')"

text \<open>The loop that removes duplicates: \<open>seen\<close> is the set, \<open>unique\<close> the list built.\<close>

fun dedupe :: "string list \<Rightarrow> string set \<Rightarrow> string list \<Rightarrow> string list" where
  "dedupe [] seen unique = unique"
| "dedupe (ref # refs) seen unique =
     (if ref \<notin> seen then dedupe refs (insert ref seen) (unique @ [ref])
      else dedupe refs seen unique)"

text \<open>
  The spec's words for the result of that loop, "unique targets in first-seen order": the
  elements of a list without repetition, each at the place of its first occurrence.
\<close>

fun first_seen :: "'a list \<Rightarrow> 'a list" where
  "first_seen [] = []"
| "first_seen (x # xs) = x # filter (\<lambda>y. y \<noteq> x) (first_seen xs)"

definition md_targets :: "string \<Rightarrow> string list" where
  "md_targets content = map group1 (finditer False md_image_re content)"

definition img_targets :: "string \<Rightarrow> string list" where
  "img_targets content = map group1 (finditer True img_tag_re content)"

definition find_local_image_refs :: "string \<Rightarrow> string list" where
  "find_local_image_refs content =
     (let refs = [];
          refs = refs @ filter (\<lambda>path. \<not> is_url path) (md_targets content);
          refs = refs @ filter (\<lambda>path. \<not> is_url path) (img_targets content)
      in dedupe refs {} [])"

section \<open>sanitize\_filename\<close>

text \<open>The candidate \<open>f"{name}-{counter}{ext}"\<close>.\<close>

definition candidate :: "string \<Rightarrow> string \<Rightarrow> nat \<Rightarrow> string" where
  "candidate name ext counter = name @ ''-'' @ str_nat counter @ ext"

fun digit_val :: "char \<Rightarrow> nat" where
  "digit_val c = of_char c - 48"

lemma digit_val_digit_char: "d < 10 \<Longrightarrow> digit_val (digit_char d) = d"
proof -
  assume "d < 10"
  then have "d = 0 \<or> d = 1 \<or> d = 2 \<or> d = 3 \<or> d = 4 \<or> d = 5 \<or> d = 6 \<or> d = 7 \<or> d = 8 \<or> d = 9"
    by arith
  then show ?thesis
    by (elim disjE) (simp_all add: digit_char_def)
qed

lemma str_nat_value: "foldl (\<lambda>a c. 10 * a + digit_val c) 0 (str_nat n) = n"
proof (induction n rule: str_nat.induct)
  case (1 n)
  show ?case
  proof (cases "n < 10")
    case True
    then show ?thesis
      using digit_val_digit_char [of n] by (simp add: str_nat.simps [of n] del: digit_val.simps)
  next
    case False
    have "n mod 10 < 10" by simp
    then have "digit_val (digit_char (n mod 10)) = n mod 10"
      by (rule digit_val_digit_char)
    with False "1.IH" show ?thesis
      by (simp add: str_nat.simps [of n] del: digit_val.simps)
  qed
qed

lemma str_nat_inj: "str_nat m = str_nat n \<Longrightarrow> m = n"
  by (metis str_nat_value)

lemma candidate_inj: "candidate name ext j = candidate name ext k \<Longrightarrow> j = k"
  by (simp add: candidate_def str_nat_inj)

lemma finite_taken_counters: "finite {k. candidate name ext k |\<in>| taken}"
proof -
  have "{k. candidate name ext k |\<in>| taken} = candidate name ext -` fset taken"
    by auto
  moreover have "finite (candidate name ext -` fset taken)"
    by (rule finite_vimageI) (auto simp: inj_on_def dest: candidate_inj)
  ultimately show ?thesis by simp
qed

text \<open>
  The loop \<open>while f"{name}-{counter}{ext}" in taken: counter += 1\<close>.  A Python set is
  finite, so the loop ends: the candidates are pairwise different.
\<close>

function next_free :: "string \<Rightarrow> string \<Rightarrow> string fset \<Rightarrow> nat \<Rightarrow> nat" where
  "next_free name ext taken counter =
     (if candidate name ext counter |\<in>| taken then next_free name ext taken (counter + 1)
      else counter)"
  by pat_completeness auto
termination
proof (relation "measure (\<lambda>(name, ext, taken, counter).
                    card {k. counter \<le> k \<and> candidate name ext k |\<in>| taken})")
  show "wf (measure (\<lambda>(name, ext, taken, counter).
                    card {k. counter \<le> k \<and> candidate name ext k |\<in>| taken}))"
    by simp
next
  fix name ext :: string and taken :: "string fset" and counter :: nat
  assume in_taken: "candidate name ext counter |\<in>| taken"
  let ?A = "{k. counter \<le> k \<and> candidate name ext k |\<in>| taken}"
  let ?B = "{k. counter + 1 \<le> k \<and> candidate name ext k |\<in>| taken}"
  have fin: "finite ?A"
    by (rule finite_subset [OF _ finite_taken_counters [of name ext taken]]) auto
  have "counter \<in> ?A" "counter \<notin> ?B" "?B \<subseteq> ?A"
    using in_taken by auto
  then have "?B \<subset> ?A"
    by blast
  then have "card ?B < card ?A"
    using fin by (rule psubset_card_mono [rotated])
  then show "((name, ext, taken, counter + 1), (name, ext, taken, counter))
             \<in> measure (\<lambda>(name, ext, taken, counter).
                    card {k. counter \<le> k \<and> candidate name ext k |\<in>| taken})"
    by simp
qed

declare next_free.simps [simp del]

text \<open>
  \<open>sanitize_filename(path, taken)\<close> mutates the set \<open>taken\<close>; the model returns the name
  together with the set after the call.
\<close>

definition sanitize_filename :: "string \<Rightarrow> string fset \<Rightarrow> string \<times> string fset" where
  "sanitize_filename path taken =
     (let base = ''_'' @ replace_space (basename path)
      in if base |\<notin>| taken then (base, finsert base taken)
         else (let (name, ext) = splitext base;
                   counter = next_free name ext taken 2;
                   result = candidate name ext counter
               in (result, finsert result taken)))"

lemma next_free_props:
  "counter \<le> next_free name ext taken counter \<and>
   candidate name ext (next_free name ext taken counter) |\<notin>| taken \<and>
   (\<forall>j. counter \<le> j \<and> j < next_free name ext taken counter \<longrightarrow> candidate name ext j |\<in>| taken)"
proof (induction name ext taken counter rule: next_free.induct)
  case (1 name ext taken counter)
  show ?case
  proof (cases "candidate name ext counter |\<in>| taken")
    case True
    with "1.IH" have ih: "counter + 1 \<le> next_free name ext taken (counter + 1)"
      "candidate name ext (next_free name ext taken (counter + 1)) |\<notin>| taken"
      "\<forall>j. counter + 1 \<le> j \<and> j < next_free name ext taken (counter + 1) \<longrightarrow> candidate name ext j |\<in>| taken"
      by simp_all
    have eq: "next_free name ext taken counter = next_free name ext taken (counter + 1)"
      using True by (simp add: next_free.simps [of name ext taken counter])
    show ?thesis
      unfolding eq using ih True
      by (metis Suc_eq_plus1 Suc_leI le_eq_less_or_eq less_le_trans less_add_one)
  next
    case False
    then show ?thesis
      by (auto simp add: next_free.simps [of name ext taken counter])
  qed
qed

lemma rfind_last:
  assumes "c \<in> set s"
  shows "\<exists>pre suf. s = pre @ c # suf \<and> c \<notin> set suf \<and> rfind c s = int (length pre)"
proof -
  from assms obtain pre suf where s: "s = pre @ c # suf" and suf: "c \<notin> set suf"
    by (auto dest: split_list_last)
  have "takeWhile (\<lambda>x. x \<noteq> c) (rev suf @ c # rev pre) = rev suf"
    using suf by (auto simp add: takeWhile_tail)
  then have "rfind c s = int (length pre)"
    using assms by (simp add: rfind_def s)
  with s suf show ?thesis by blast
qed

lemma rfind_absent: "c \<notin> set s \<Longrightarrow> rfind c s = - 1"
  by (simp add: rfind_def)

lemma splitext_parts:
  assumes "splitext p = (a, b)"
  shows "a @ b = p \<and> (b = [] \<or> (\<exists>e. b = CHR ''.'' # e \<and> CHR ''.'' \<notin> set e))"
proof (cases "CHR ''.'' \<in> set p")
  case False
  then show ?thesis
    using assms by (simp add: splitext_def Let_def rfind_absent split: if_splits)
next
  case True
  then obtain pre suf where p: "p = pre @ CHR ''.'' # suf" and suf: "CHR ''.'' \<notin> set suf"
    and rf: "rfind (CHR ''.'') p = int (length pre)"
    using rfind_last by blast
  show ?thesis
    using assms suf unfolding splitext_def Let_def rf
    by (auto simp: p split: if_splits)
qed

section \<open>Paths, percent-encoding, time stamps\<close>

text \<open>\<open>s.split(sep)\<close> for a separator of one character, and \<open>sep.join(xs)\<close>.\<close>

fun split_on :: "char \<Rightarrow> string \<Rightarrow> string list" where
  "split_on sep [] = [[]]"
| "split_on sep (c # cs) =
     (if c = sep then [] # split_on sep cs
      else (case split_on sep cs of [] \<Rightarrow> [[c]] | w # ws \<Rightarrow> (c # w) # ws))"

fun join_with :: "string \<Rightarrow> string list \<Rightarrow> string" where
  "join_with sep [] = []"
| "join_with sep [x] = x"
| "join_with sep (x # y # ys) = x @ sep @ join_with sep (y # ys)"

text \<open>\<open>s.rstrip(c)\<close> for one character, and \<open>s.strip()\<close>.\<close>

definition rstrip_char :: "char \<Rightarrow> string \<Rightarrow> string" where
  "rstrip_char c s = rev (dropWhile (\<lambda>x. x = c) (rev s))"

definition isspace :: "char \<Rightarrow> bool" where
  "isspace c = (c \<in> set [CHR 0x09, CHR 0x0A, CHR 0x0B, CHR 0x0C, CHR 0x0D, CHR 0x1C, CHR 0x1D,
                            CHR 0x1E, CHR 0x1F, CHR 0x20, CHR 0x85, CHR 0xA0])"

definition strip :: "string \<Rightarrow> string" where
  "strip s = rev (dropWhile isspace (rev (dropWhile isspace s)))"

text \<open>\<open>sub in s\<close> for strings.\<close>

fun contains :: "string \<Rightarrow> string \<Rightarrow> bool" where
  "contains [] sub = (sub = [])"
| "contains (c # cs) sub = (startswith (c # cs) sub \<or> contains cs sub)"

text \<open>\<open>posixpath.join(a, b)\<close>, \<open>posixpath.dirname\<close>, \<open>posixpath.normpath\<close>.\<close>

definition path_join :: "string \<Rightarrow> string \<Rightarrow> string" where
  "path_join a b =
     (if startswith b ''/'' then b
      else if a = [] \<or> last a = CHR ''/'' then a @ b
      else a @ ''/'' @ b)"

definition dirname :: "string \<Rightarrow> string" where
  "dirname p =
     (let i = nat (rfind (CHR ''/'') p + 1); head = take i p
      in if head \<noteq> [] \<and> head \<noteq> replicate (length head) (CHR ''/'')
         then rstrip_char (CHR ''/'') head else head)"

fun norm_comps :: "nat \<Rightarrow> string list \<Rightarrow> string list \<Rightarrow> string list" where
  "norm_comps initial_slashes [] new_comps = new_comps"
| "norm_comps initial_slashes (part # comps) new_comps =
     (if part = [] \<or> part = ''.'' then norm_comps initial_slashes comps new_comps
      else if part \<noteq> ''..'' \<or> (initial_slashes = 0 \<and> new_comps = []) \<or>
              (new_comps \<noteq> [] \<and> last new_comps = ''..'')
           then norm_comps initial_slashes comps (new_comps @ [part])
      else if new_comps \<noteq> [] then norm_comps initial_slashes comps (butlast new_comps)
      else norm_comps initial_slashes comps new_comps)"

definition normpath :: "string \<Rightarrow> string" where
  "normpath path =
     (if path = [] then ''.''
      else let initial_slashes =
                 (if startswith path ''/'' then
                    (if startswith path ''//'' \<and> \<not> startswith path ''///'' then 2 else 1)
                  else 0);
               comps = norm_comps initial_slashes (split_on (CHR ''/'') path) [];
               p = replicate initial_slashes (CHR ''/'') @ join_with ''/'' comps
           in if p = [] then ''.'' else p)"

text \<open>
  \<open>posixpath.commonpath([a, b])\<close> for two paths that are both absolute or both relative
  (the script passes two results of \<open>abspath\<close>): the longest common prefix of their
  components.
\<close>

fun common_prefix :: "string list \<Rightarrow> string list \<Rightarrow> string list" where
  "common_prefix (x # xs) (y # ys) = (if x = y then x # common_prefix xs ys else [])"
| "common_prefix xs ys = []"

definition path_comps :: "string \<Rightarrow> string list" where
  "path_comps p = filter (\<lambda>c. c \<noteq> [] \<and> c \<noteq> ''.'') (split_on (CHR ''/'') p)"

definition commonpath :: "string \<Rightarrow> string \<Rightarrow> string" where
  "commonpath a b =
     (if startswith a ''/'' then ''/'' else []) @
     join_with ''/'' (common_prefix (path_comps a) (path_comps b))"

text \<open>
  \<open>urllib.parse.quote(s)\<close> with the default \<open>safe = '/'\<close>: the UTF-8 bytes of \<open>s\<close>, each
  kept when it is an ASCII letter, a digit or one of \<open>_.-~/\<close> and written \<open>%XX\<close> otherwise.
\<close>

definition always_safe :: "char list" where
  "always_safe =
     ''ABCDEFGHIJKLMNOPQRSTUVWXYZ'' @ ''abcdefghijklmnopqrstuvwxyz'' @ ''0123456789'' @ ''_.-~''"

definition utf8_bytes :: "char \<Rightarrow> nat list" where
  "utf8_bytes c =
     (let n = of_char c :: nat in if n < 128 then [n] else [192 + n div 64, 128 + n mod 64])"

definition percent :: "nat \<Rightarrow> string" where
  "percent b = [CHR ''%'', ''0123456789ABCDEF'' ! (b div 16), ''0123456789ABCDEF'' ! (b mod 16)]"

definition quote_char :: "char \<Rightarrow> string" where
  "quote_char c =
     (if c \<in> set always_safe \<or> c = CHR ''/'' then [c] else concat (map percent (utf8_bytes c)))"

definition quote :: "string \<Rightarrow> string" where
  "quote s = concat (map quote_char s)"

text \<open>
  \<open>datetime.strftime("%Y-%m-%dT%H%M%SZ-")\<close>: \<open>%Y\<close> is the year in decimal, the other
  fields are padded with a zero to two digits.
\<close>

record datetime =
  year :: nat
  month :: nat
  day :: nat
  hour :: nat
  minute :: nat
  second :: nat

definition pad2 :: "nat \<Rightarrow> string" where
  "pad2 n = (if n < 10 then ''0'' @ str_nat n else str_nat n)"

definition utc_prefix :: "datetime \<Rightarrow> string" where
  "utc_prefix t =
     str_nat (year t) @ ''-'' @ pad2 (month t) @ ''-'' @ pad2 (day t) @ ''T'' @
     pad2 (hour t) @ pad2 (minute t) @ pad2 (second t) @ ''Z-''"

section \<open>The rewriting of the references\<close>

text \<open>\<open>f"https://gist.githubusercontent.com/{owner}/{gist_id}/raw/{encoded_name}"\<close>\<close>

definition raw_url :: "string \<Rightarrow> string \<Rightarrow> string \<Rightarrow> string" where
  "raw_url owner gist_id encoded_name =
     ''https://gist.githubusercontent.com/'' @ owner @ ''/'' @ gist_id @ ''/raw/'' @ encoded_name"

text \<open>\<^verbatim>\<open>(!\[[^\]]*\]\()({escaped_ref})(\))\<close>\<close>

definition md_ref_re :: "string \<Rightarrow> node list" where
  "md_ref_re orig_ref =
     [Atom (Lit (CHR ''!'')), Atom (Lit (CHR ''['')), Star (NotAmong '']''),
      Atom (Lit (CHR '']'')), Atom (Lit (CHR ''('')), Mark] @
     re_escape orig_ref @
     [Mark, Atom (Lit (CHR '')''))]"

text \<open>\<^verbatim>\<open>(<img[^>]+src=[\"\'])({escaped_ref})([\"\'])\<close>, used with \<open>re.IGNORECASE\<close>\<close>

definition img_ref_re :: "string \<Rightarrow> node list" where
  "img_ref_re orig_ref =
     re_escape ''<img'' @ [Plus (NotAmong ''>'')] @ re_escape ''src='' @
     [Atom (Among [CHR 0x22, CHR 0x27]), Mark] @
     re_escape orig_ref @
     [Mark, Atom (Among [CHR 0x22, CHR 0x27])]"

text \<open>
  The template \<open>rf"\1{raw_url}\3"\<close>: the first piece of the match, the URL, the third
  piece.  \<open>re\<close> reads a backslash in a template as an escape; a URL with a backslash is
  outside the model, and the rewriting gives \<open>None\<close> for it.
\<close>

definition template :: "string \<Rightarrow> string list \<Rightarrow> string" where
  "template url gs = gs ! 0 @ url @ gs ! 2"

definition rewrite_ref :: "string \<Rightarrow> string \<Rightarrow> string \<Rightarrow> string \<Rightarrow> string \<Rightarrow> string option" where
  "rewrite_ref owner gist_id orig_ref sanitized rewritten =
     (let encoded_name = quote sanitized;
          url = raw_url owner gist_id encoded_name
      in if CHR 0x5C \<in> set url then None
         else Some (resub True (img_ref_re orig_ref) (template url)
                      (resub False (md_ref_re orig_ref) (template url) rewritten)))"

text \<open>The loop \<open>for orig_ref, sanitized in rewrite_map.items()\<close>, in the order of insertion.\<close>

fun rewrite_content ::
  "string \<Rightarrow> string \<Rightarrow> (string \<times> string) list \<Rightarrow> string \<Rightarrow> string option" where
  "rewrite_content owner gist_id [] rewritten = Some rewritten"
| "rewrite_content owner gist_id ((orig_ref, sanitized) # items) rewritten =
     (case rewrite_ref owner gist_id orig_ref sanitized rewritten of
        None \<Rightarrow> None
      | Some r \<Rightarrow> rewrite_content owner gist_id items r)"

section \<open>main\<close>

text \<open>
  What the script reads from outside is a record: the file system, the current directory,
  the clock, the results of the subprocesses, the temporary directories, and the two
  library functions whose results leave the code points 0..255 or depend on a parser
  (\<open>urllib.parse.unquote\<close>; \<open>json.loads(...).get("owner", {}).get("login", "")\<close>, which
  gives \<open>None\<close> when it raises).  Reading the file and copying the images are taken to
  succeed.  The progress lines printed on the standard output are not modelled.
\<close>

record args =
  markdown_file :: string
  name_override :: "string option"
  public_flag :: bool
  description :: "string option"
  web_flag :: bool

record proc =
  returncode :: int
  proc_stdout :: string
  proc_stderr :: string

record env =
  isfile :: "string \<Rightarrow> bool"
  getcwd :: string
  which :: "string \<Rightarrow> bool"
  subprocess :: "string list \<Rightarrow> string option \<Rightarrow> proc"
  now_utc :: datetime
  file_text :: "string \<Rightarrow> string"
  unquote :: "string \<Rightarrow> string"
  staging_dir :: string
  mkdtemp :: string
  owner_login :: "string \<Rightarrow> string option"

definition abspath :: "env \<Rightarrow> string \<Rightarrow> string" where
  "abspath e path =
     normpath (if startswith path ''/'' then path else path_join (getcwd e) path)"

text \<open>
  \<open>run(cmd, check=True, cwd)\<close>: the lines printed on the standard error before
  \<open>sys.exit(1)\<close>, or the standard output, stripped.
\<close>

definition run :: "env \<Rightarrow> string list \<Rightarrow> string option \<Rightarrow> string list + string" where
  "run e cmd dir =
     (let result = subprocess e cmd dir
      in if returncode result \<noteq> 0
         then Inl ([''Error running: '' @ join_with '' '' cmd] @
                   (if proc_stderr result \<noteq> [] then [strip (proc_stderr result)] else []))
         else Inr (strip (proc_stdout result)))"

text \<open>\<open>check_dependencies()\<close>: the message of the \<open>sys.exit(1)\<close> it ends with, if any.\<close>

definition check_dependencies :: "env \<Rightarrow> string option" where
  "check_dependencies e =
     (if \<not> which e ''gh'' then Some (''Error: '' @ [CHR 0x27] @ ''gh'' @ [CHR 0x27] @ '' is required but not found.'')
      else if \<not> which e ''git'' then Some (''Error: '' @ [CHR 0x27] @ ''git'' @ [CHR 0x27] @ '' is required but not found.'')
      else if returncode (subprocess e [''gh'', ''auth'', ''status''] None) \<noteq> 0
           then Some (''Error: Not authenticated with gh. Run '' @ [CHR 0x27] @ ''gh auth login'' @ [CHR 0x27] @ '' first.'')
      else None)"

text \<open>\<open>s.endswith(p)\<close>, and the name of the markdown file in the gist (lines 105-112).\<close>

definition endswith :: "string \<Rightarrow> string \<Rightarrow> bool" where
  "endswith s p = (length p \<le> length s \<and> drop (length s - length p) s = p)"

definition gist_filename :: "string option \<Rightarrow> string \<Rightarrow> datetime \<Rightarrow> string" where
  "gist_filename name md_basename now =
     (let gist_md_name = (case name of None \<Rightarrow> md_basename
                          | Some n \<Rightarrow> if n \<noteq> [] then n else md_basename);
          gist_md_name = (if \<not> endswith gist_md_name ''.md'' then gist_md_name @ ''.md''
                          else gist_md_name)
      in utc_prefix now @ gist_md_name)"

text \<open>
  A \<open>dict\<close> keeps its keys in the order of insertion: an association list, where
  \<open>d[k] = v\<close> replaces the value of a key that is present and appends a new key.
\<close>

fun dict_set :: "('k \<times> 'v) list \<Rightarrow> 'k \<Rightarrow> 'v \<Rightarrow> ('k \<times> 'v) list" where
  "dict_set [] k v = [(k, v)]"
| "dict_set ((k', v') # d) k v = (if k' = k then (k, v) # d else (k', v') # dict_set d k v)"

text \<open>The loop of lines 127-143 over \<open>image_refs\<close>, with the variables it updates.\<close>

record resolution =
  rewrite_map :: "(string \<times> string) list"
  resolved_images :: "(string \<times> string) list"
  taken_names :: "string fset"
  warnings :: "string list"

fun resolve_refs :: "env \<Rightarrow> string \<Rightarrow> string list \<Rightarrow> resolution \<Rightarrow> resolution" where
  "resolve_refs e md_dir [] st = st"
| "resolve_refs e md_dir (ref # refs) st =
     (let decoded_ref = unquote e ref;
          full_path = abspath e (path_join md_dir decoded_ref)
      in if commonpath md_dir full_path \<noteq> md_dir
         then resolve_refs e md_dir refs
                (st\<lparr>warnings := warnings st @
                   [''  Warning: Referenced image outside markdown directory, skipping: '' @ ref]\<rparr>)
         else if \<not> isfile e full_path
         then resolve_refs e md_dir refs
                (st\<lparr>warnings := warnings st @
                   [''  Warning: Referenced image not found, skipping: '' @ ref]\<rparr>)
         else (let (sanitized, taken') = sanitize_filename decoded_ref (taken_names st)
               in resolve_refs e md_dir refs
                    (st\<lparr>rewrite_map := dict_set (rewrite_map st) ref sanitized,
                        resolved_images := dict_set (resolved_images st) sanitized full_path,
                        taken_names := taken'\<rparr>)))"

definition no_resolution :: resolution where
  "no_resolution = \<lparr>rewrite_map = [], resolved_images = [], taken_names = {||}, warnings = []\<rparr>"

text \<open>
  How a run ends: \<open>sys.exit(1)\<close> after some lines on the standard error; an exception
  that nothing catches; a template outside the model; or the end of \<open>main\<close>, with what
  was published.
\<close>

record published =
  gist_url :: string
  gist_md_name :: string
  images :: "(string \<times> string) list"
  updated_text :: "string option"
  browser_opened :: bool

datatype outcome =
    Exit1 "string list"
  | Raised "string list"
  | TemplateEscape
  | Done "string list" published

text \<open>Step 2 of \<open>main\<close> (lines 168-218), entered when \<open>rewrite_map\<close> is not empty.\<close>

definition upload_and_rewrite ::
  "env \<Rightarrow> args \<Rightarrow> resolution \<Rightarrow> string \<Rightarrow> string \<Rightarrow> string \<Rightarrow> string \<Rightarrow> outcome" where
  "upload_and_rewrite e a st url gist_id md_name content =
     (let clone_dir = mkdtemp e; log = warnings st
      in case run e [''gh'', ''gist'', ''clone'', gist_id, clone_dir] None of
           Inl errs \<Rightarrow> Exit1 (log @ errs)
         | Inr _ \<Rightarrow>
      (case run e [''git'', ''add'', ''.''] (Some clone_dir) of
           Inl errs \<Rightarrow> Exit1 (log @ errs)
         | Inr _ \<Rightarrow>
      (case run e [''git'', ''commit'', ''-m'', ''Add images''] (Some clone_dir) of
           Inl errs \<Rightarrow> Exit1 (log @ errs)
         | Inr _ \<Rightarrow>
      (case run e [''git'', ''push''] (Some clone_dir) of
           Inl errs \<Rightarrow> Exit1 (log @ errs)
         | Inr _ \<Rightarrow>
      (case run e [''gh'', ''api'', ''gists/'' @ gist_id] None of
           Inl errs \<Rightarrow> Exit1 (log @ errs)
         | Inr gist_json \<Rightarrow>
      (case owner_login e gist_json of
           None \<Rightarrow> Raised log
         | Some owner \<Rightarrow>
      (case rewrite_content owner gist_id (rewrite_map st) content of
           None \<Rightarrow> TemplateEscape
         | Some rewritten \<Rightarrow>
      (case run e [''gh'', ''gist'', ''edit'', gist_id, ''-f'', md_name,
                   path_join clone_dir md_name] None of
           Inl errs \<Rightarrow> Exit1 (log @ errs)
         | Inr _ \<Rightarrow>
             Done log \<lparr>gist_url = url, gist_md_name = md_name,
                        images = resolved_images st, updated_text = Some rewritten,
                        browser_opened = web_flag a\<rparr>))))))))"

text \<open>The run from the answer of \<open>gh gist create\<close> on (lines 160-224).\<close>

definition after_create ::
  "env \<Rightarrow> args \<Rightarrow> resolution \<Rightarrow> string \<Rightarrow> string \<Rightarrow> string \<Rightarrow> outcome" where
  "after_create e a st md_name content url =
     (if \<not> contains url ''gist.github.com''
      then Exit1 (warnings st @ [''Error: Unexpected response from gh: '' @ url])
      else (let gist_id = last (split_on (CHR ''/'') (rstrip_char (CHR ''/'') url))
            in if rewrite_map st \<noteq> []
               then upload_and_rewrite e a st url gist_id md_name content
               else Done (warnings st)
                      \<lparr>gist_url = url, gist_md_name = md_name, images = [],
                       updated_text = None, browser_opened = web_flag a\<rparr>))"

definition main :: "env \<Rightarrow> args \<Rightarrow> outcome" where
  "main e a =
     (if \<not> isfile e (markdown_file a)
      then Exit1 [''Error: File not found: '' @ markdown_file a]
      else (case check_dependencies e of
              Some msg \<Rightarrow> Exit1 [msg]
            | None \<Rightarrow>
                (let md_dir = dirname (abspath e (markdown_file a));
                     md_basename = basename (markdown_file a);
                     md_name = gist_filename (name_override a) md_basename (now_utc e);
                     content = file_text e (markdown_file a);
                     image_refs = find_local_image_refs content;
                     st = resolve_refs e md_dir image_refs no_resolution;
                     staged_md = path_join (staging_dir e) md_name;
                     cmd = [''gh'', ''gist'', ''create''] @
                           (if public_flag a then [''--public''] else []) @
                           (case description a of
                              None \<Rightarrow> []
                            | Some d \<Rightarrow> if d \<noteq> [] then [''--desc'', d] else []) @
                           [staged_md]
                 in case run e cmd None of
                      Inl errs \<Rightarrow> Exit1 (warnings st @ errs)
                    | Inr url \<Rightarrow> after_create e a st md_name content url)))"

section \<open>Facts about basename and splitext\<close>

lemma last_split_unique:
  assumes "xs @ c # ys = xs' @ c # ys'" "c \<notin> set ys" "c \<notin> set ys'"
  shows "xs = xs' \<and> ys = ys'"
proof -
  have "takeWhile (\<lambda>x. x \<noteq> c) (rev (xs @ c # ys)) = rev ys"
    using assms(2) by (auto simp add: takeWhile_tail)
  moreover have "takeWhile (\<lambda>x. x \<noteq> c) (rev (xs' @ c # ys')) = rev ys'"
    using assms(3) by (auto simp add: takeWhile_tail)
  ultimately have "ys = ys'"
    using assms(1) by (metis rev_is_rev_conv)
  with assms(1) show ?thesis by simp
qed

lemma basename_unique:
  assumes "path = dir @ bn" "CHR ''/'' \<notin> set bn" "dir = [] \<or> last dir = CHR ''/''"
  shows "basename path = bn"
proof (cases "dir = []")
  case True
  with assms show ?thesis by (simp add: basename_def rfind_absent)
next
  case False
  with assms(3) obtain d where d: "dir = d @ ''/''"
    by (metis append_butlast_last_id)
  then have p: "path = d @ CHR ''/'' # bn"
    using assms(1) by simp
  then have "CHR ''/'' \<in> set path" by simp
  then obtain pre suf where q: "path = pre @ CHR ''/'' # suf" "CHR ''/'' \<notin> set suf"
    "rfind (CHR ''/'') path = int (length pre)"
    using rfind_last by blast
  from last_split_unique [of pre "CHR ''/''" suf d bn] p q assms(2)
  have "suf = bn" by simp
  moreover have "nat (int (length pre) + 1) = Suc (length pre)" by simp
  ultimately show ?thesis using q by (simp add: basename_def)
qed

lemma splitext_unique:
  assumes "CHR ''/'' \<notin> set p" "p = c # b" "c \<noteq> CHR ''.''"
    and "p = stem @ ext"
    and "if CHR ''.'' \<in> set p then (\<exists>e. ext = CHR ''.'' # e \<and> CHR ''.'' \<notin> set e) else ext = []"
  shows "splitext p = (stem, ext)"
proof (cases "CHR ''.'' \<in> set p")
  case False
  with assms show ?thesis
    by (simp add: splitext_def Let_def rfind_absent del: set_append)
next
  case True
  with assms(5) obtain e where e: "ext = CHR ''.'' # e" "CHR ''.'' \<notin> set e"
    by auto
  from True obtain pre suf where q: "p = pre @ CHR ''.'' # suf" "CHR ''.'' \<notin> set suf"
    "rfind (CHR ''.'') p = int (length pre)"
    using rfind_last by blast
  from last_split_unique [of pre "CHR ''.''" suf stem e] q e assms(4)
  have eq: "pre = stem" "suf = e" by simp_all
  have "pre \<noteq> []"
    using q(1) assms(2,3) by (cases pre) auto
  then have "hd pre = c"
    using q(1) assms(2) by (cases pre) auto
  with \<open>pre \<noteq> []\<close> assms(3) have ex: "list_ex (\<lambda>x. x \<noteq> CHR ''.'') pre"
    by (cases pre) auto
  have sep: "rfind (CHR ''/'') p = - 1"
    using assms(1) by (rule rfind_absent)
  show ?thesis
    unfolding splitext_def Let_def q(3) sep
    using ex by (simp add: q(1) eq e)
qed

lemma str_nat_digits: "set (str_nat n) \<subseteq> set ''0123456789''"
proof (induction n rule: str_nat.induct)
  case (1 n)
  have d: "\<And>k. k < 10 \<Longrightarrow> digit_char k \<in> set ''0123456789''"
    unfolding digit_char_def by (rule nth_mem) simp
  show ?case
  proof (cases "n < 10")
    case True
    then show ?thesis using d [of n] by (simp add: str_nat.simps [of n])
  next
    case False
    have "n mod 10 < 10" by simp
    with False "1.IH" d [of "n mod 10"] show ?thesis
      by (simp add: str_nat.simps [of n])
  qed
qed

lemmas sanitize_defs = sanitize_filename_def basename_def rfind_def replace_space_def splitext_def
  next_free.simps candidate_def str_nat.simps digit_char_def Let_def

lemma sanitize_sample_1: "sanitize_filename ''shots/img.png'' {||} = (''_img.png'', {|''_img.png''|})"
  by (simp add: sanitize_defs)

lemma sanitize_sample_2: "sanitize_filename ''old/img.png'' {|''_img.png''|} = (''_img-2.png'', {|''_img-2.png'', ''_img.png''|})"
  by (simp add: sanitize_defs)

lemma sanitize_sample_3: "sanitize_filename ''my docs/my img 1.png'' {||} = (''_my-img-1.png'', {|''_my-img-1.png''|})"
  by (simp add: sanitize_defs)

lemma sanitize_sample_4: "sanitize_filename ''old docs/my img 1.png'' {|''_my-img-1.png'', ''_my-img-1-2.png''|} =
     (''_my-img-1-3.png'', {|''_my-img-1-3.png'', ''_my-img-1.png'', ''_my-img-1-2.png''|})"
  by (simp add: sanitize_defs)

lemma sanitize_sample_5: "sanitize_filename ''a b/READ ME'' {|''_READ-ME''|} = (''_READ-ME-2'', {|''_READ-ME-2'', ''_READ-ME''|})"
  by (simp add: sanitize_defs)

lemma sanitize_sample_6: "sanitize_filename ''x.tar.gz'' {|''_x.tar.gz''|} = (''_x.tar-2.gz'', {|''_x.tar-2.gz'', ''_x.tar.gz''|})"
  by (simp add: sanitize_defs)

section \<open>Claims about sanitize\_filename\<close>

text \<open>
  C3.  \<open>sanitize_filename\<close> is a function of the path and the set of taken names.  Let
  \<open>bn\<close> be what follows the last \<open>/\<close> of the path, \<open>base\<close> the text \<open>_\<close> followed by \<open>bn\<close>
  with every space turned into a hyphen, and \<open>ext\<close> the part of \<open>base\<close> from its last dot
  (empty when \<open>base\<close> has no dot), \<open>stem\<close> what stands before it.  The result is \<open>base\<close> when
  \<open>base\<close> is not taken; otherwise it is \<open>stem\<close>, a hyphen, the decimal digits of \<open>k\<close>, \<open>ext\<close>,
  for the least \<open>k \<ge> 2\<close> whose name is not taken.  The result is never in the set given
  and the set returned is the set given plus the result.  The witness runs the example
  of two \<open>img.png\<close> under different directories, names with spaces, a name without
  extension and a name with two dots.
\<close>

theorem sanitize_filename_collision_free:
  assumes call: "sanitize_filename path taken = (r, taken')"
    and path: "path = dir @ bn" "CHR ''/'' \<notin> set bn" "dir = [] \<or> last dir = CHR ''/''"
    and base: "base = CHR ''_'' # map (\<lambda>c. if c = CHR '' '' then CHR ''-'' else c) bn"
    and split: "base = stem @ ext"
      "if CHR ''.'' \<in> set base then (\<exists>e. ext = CHR ''.'' # e \<and> CHR ''.'' \<notin> set e) else ext = []"
  shows "(base |\<notin>| taken \<longrightarrow> r = base) \<and>
         (base |\<in>| taken \<longrightarrow>
            (\<exists>k\<ge>2. r = stem @ ''-'' @ str_nat k @ ext \<and>
               set (str_nat k) \<subseteq> set ''0123456789'' \<and>
               foldl (\<lambda>a c. 10 * a + (of_char c - 48)) 0 (str_nat k) = k \<and>
               (\<forall>j. 2 \<le> j \<and> j < k \<longrightarrow> stem @ ''-'' @ str_nat j @ ext |\<in>| taken))) \<and>
         r |\<notin>| taken \<and> taken' = finsert r taken"
proof -
  have bn: "basename path = bn"
    using path by (rule basename_unique)
  have b: "CHR ''_'' # replace_space (basename path) = base"
    by (simp add: bn base replace_space_def)
  have "CHR ''/'' \<notin> set base"
    using path(2) by (auto simp: base)
  then have sp: "splitext base = (stem, ext)"
    using splitext_unique [of base "CHR ''_''" _ stem ext] split by (simp add: base)
  show ?thesis
  proof (cases "base |\<in>| taken")
    case False
    then have "r = base \<and> taken' = finsert base taken"
      using call by (auto simp add: sanitize_filename_def Let_def b)
    with False show ?thesis by simp
  next
    case True
    define k where "k = next_free stem ext taken 2"
    have r: "r = candidate stem ext k" and t: "taken' = finsert r taken"
      using call True sp unfolding k_def
      by (auto simp add: sanitize_filename_def Let_def b)
    have "2 \<le> k" "candidate stem ext k |\<notin>| taken"
      "\<forall>j. 2 \<le> j \<and> j < k \<longrightarrow> candidate stem ext j |\<in>| taken"
      using next_free_props [of 2 stem ext taken] by (simp_all add: k_def)
    moreover have "set (str_nat k) \<subseteq> set ''0123456789''"
      by (rule str_nat_digits)
    moreover have "foldl (\<lambda>a c. 10 * a + (of_char c - 48)) 0 (str_nat k) = k"
      using str_nat_value [of k] by simp
    ultimately show ?thesis
      using True r t unfolding candidate_def by blast
  qed
qed

theorem sanitize_filename_collision_free_witness:
  "sanitize_filename ''shots/img.png'' {||} = (''_img.png'', {|''_img.png''|}) \<and>
   sanitize_filename ''old/img.png'' {|''_img.png''|} = (''_img-2.png'', {|''_img-2.png'', ''_img.png''|}) \<and>
   sanitize_filename ''my docs/my img 1.png'' {||} = (''_my-img-1.png'', {|''_my-img-1.png''|}) \<and>
   sanitize_filename ''old docs/my img 1.png'' {|''_my-img-1.png'', ''_my-img-1-2.png''|} =
     (''_my-img-1-3.png'', {|''_my-img-1-3.png'', ''_my-img-1.png'', ''_my-img-1-2.png''|}) \<and>
   sanitize_filename ''a b/READ ME'' {|''_READ-ME''|} = (''_READ-ME-2'', {|''_READ-ME-2'', ''_READ-ME''|}) \<and>
   sanitize_filename ''x.tar.gz'' {|''_x.tar.gz''|} = (''_x.tar-2.gz'', {|''_x.tar-2.gz'', ''_x.tar.gz''|}) \<and>
   ''_my-img-1.png'' |\<in>| {|''_my-img-1.png'', ''_my-img-1-2.png''|} \<and>
   ''_my-img-1-3.png'' |\<notin>| {|''_my-img-1.png'', ''_my-img-1-2.png''|}"
proof -
  have h: "''old docs/my img 1.png'' = ''old docs/'' @ ''my img 1.png''"
    "CHR ''/'' \<notin> set ''my img 1.png''"
    "''old docs/'' = [] \<or> last ''old docs/'' = CHR ''/''"
    "''_my-img-1.png'' = CHR ''_'' # map (\<lambda>c. if c = CHR '' '' then CHR ''-'' else c) ''my img 1.png''"
    "''_my-img-1.png'' = ''_my-img-1'' @ ''.png''"
    "if CHR ''.'' \<in> set ''_my-img-1.png''
     then (\<exists>e. ''.png'' = CHR ''.'' # e \<and> CHR ''.'' \<notin> set e) else ''.png'' = []"
    by simp_all
  have i: "''_my-img-1.png'' |\<in>| {|''_my-img-1.png'', ''_my-img-1-2.png''|}"
    by simp
  from sanitize_filename_collision_free [OF sanitize_sample_4 h]
  have "''_my-img-1-3.png'' |\<notin>| {|''_my-img-1.png'', ''_my-img-1-2.png''|}"
    by blast
  with i sanitize_sample_1 sanitize_sample_2 sanitize_sample_3 sanitize_sample_4
    sanitize_sample_5 sanitize_sample_6
  show ?thesis by blast
qed


section \<open>Evaluation and the lower-casing\<close>

lemma lower_unfold:
  "lower c =
     (if c = CHR ''A'' then CHR ''a'' else if c = CHR ''B'' then CHR ''b'' else
      if c = CHR ''C'' then CHR ''c'' else if c = CHR ''D'' then CHR ''d'' else
      if c = CHR ''E'' then CHR ''e'' else if c = CHR ''F'' then CHR ''f'' else
      if c = CHR ''G'' then CHR ''g'' else if c = CHR ''H'' then CHR ''h'' else
      if c = CHR ''I'' then CHR ''i'' else if c = CHR ''J'' then CHR ''j'' else
      if c = CHR ''K'' then CHR ''k'' else if c = CHR ''L'' then CHR ''l'' else
      if c = CHR ''M'' then CHR ''m'' else if c = CHR ''N'' then CHR ''n'' else
      if c = CHR ''O'' then CHR ''o'' else if c = CHR ''P'' then CHR ''p'' else
      if c = CHR ''Q'' then CHR ''q'' else if c = CHR ''R'' then CHR ''r'' else
      if c = CHR ''S'' then CHR ''s'' else if c = CHR ''T'' then CHR ''t'' else
      if c = CHR ''U'' then CHR ''u'' else if c = CHR ''V'' then CHR ''v'' else
      if c = CHR ''W'' then CHR ''w'' else if c = CHR ''X'' then CHR ''x'' else
      if c = CHR ''Y'' then CHR ''y'' else if c = CHR ''Z'' then CHR ''z'' else
      if c = CHR 0xC0 then CHR 0xE0 else if c = CHR 0xC1 then CHR 0xE1 else
      if c = CHR 0xC2 then CHR 0xE2 else if c = CHR 0xC3 then CHR 0xE3 else
      if c = CHR 0xC4 then CHR 0xE4 else if c = CHR 0xC5 then CHR 0xE5 else
      if c = CHR 0xC6 then CHR 0xE6 else if c = CHR 0xC7 then CHR 0xE7 else
      if c = CHR 0xC8 then CHR 0xE8 else if c = CHR 0xC9 then CHR 0xE9 else
      if c = CHR 0xCA then CHR 0xEA else if c = CHR 0xCB then CHR 0xEB else
      if c = CHR 0xCC then CHR 0xEC else if c = CHR 0xCD then CHR 0xED else
      if c = CHR 0xCE then CHR 0xEE else if c = CHR 0xCF then CHR 0xEF else
      if c = CHR 0xD0 then CHR 0xF0 else if c = CHR 0xD1 then CHR 0xF1 else
      if c = CHR 0xD2 then CHR 0xF2 else if c = CHR 0xD3 then CHR 0xF3 else
      if c = CHR 0xD4 then CHR 0xF4 else if c = CHR 0xD5 then CHR 0xF5 else
      if c = CHR 0xD6 then CHR 0xF6 else if c = CHR 0xD8 then CHR 0xF8 else
      if c = CHR 0xD9 then CHR 0xF9 else if c = CHR 0xDA then CHR 0xFA else
      if c = CHR 0xDB then CHR 0xFB else if c = CHR 0xDC then CHR 0xFC else
      if c = CHR 0xDD then CHR 0xFD else if c = CHR 0xDE then CHR 0xFE else c)"
  by (simp add: lower_def upper_case_def lower_case_def)

section \<open>Facts about the extraction\<close>

lemma first_seen_filter: "first_seen (filter P xs) = filter P (first_seen xs)"
proof (induction xs)
  case Nil
  show ?case by simp
next
  case (Cons x xs)
  show ?case
  proof (cases "P x")
    case True
    with Cons show ?thesis by (simp add: conj_commute)
  next
    case False
    have "filter P (filter (\<lambda>y. y \<noteq> x) (first_seen xs)) = filter P (first_seen xs)"
      using False by (auto intro: filter_cong)
    with False Cons show ?thesis by simp
  qed
qed

lemma set_first_seen: "set (first_seen xs) = set xs"
  by (induction xs) auto

lemma distinct_first_seen: "distinct (first_seen xs)"
  by (induction xs) (auto simp: set_first_seen)

lemma dedupe_first_seen:
  "dedupe refs seen unique = unique @ first_seen (filter (\<lambda>x. x \<notin> seen) refs)"
proof (induction refs arbitrary: seen unique)
  case Nil
  show ?case by simp
next
  case (Cons r refs)
  show ?case
  proof (cases "r \<in> seen")
    case True
    with Cons show ?thesis by simp
  next
    case False
    have "filter (\<lambda>y. y \<noteq> r) (first_seen (filter (\<lambda>x. x \<notin> seen) refs))
          = first_seen (filter (\<lambda>x. x \<notin> insert r seen) refs)"
      by (simp add: first_seen_filter [symmetric] conj_commute)
    with False Cons show ?thesis by simp
  qed
qed

lemma find_local_image_refs_eq:
  "find_local_image_refs content =
     first_seen (filter (\<lambda>p. \<not> is_url p) (md_targets content) @
                 filter (\<lambda>p. \<not> is_url p) (img_targets content))"
  by (simp add: find_local_image_refs_def dedupe_first_seen)


lemmas extract_defs = find_local_image_refs_def md_targets_def img_targets_def md_image_re_def
  img_tag_re_def re_escape_def group1_def is_url_def startswith_def lower_unfold

section \<open>Claims about the extraction\<close>

text \<open>
  C1, as the code has it.  \<open>find_local_image_refs\<close> returns the targets that do not start
  with \<open>http://\<close> or \<open>https://\<close>, without repetition, in the first-seen order of this
  sequence: all the targets of \<open>![alt](target)\<close> in the order of the document, then all the
  targets of \<open><img ... src="target"\<close> in the order of the document.
\<close>

theorem find_local_image_refs_two_passes:
  "find_local_image_refs content =
     first_seen (filter (\<lambda>p. \<not> is_url p) (md_targets content) @
                 filter (\<lambda>p. \<not> is_url p) (img_targets content)) \<and>
   distinct (find_local_image_refs content) \<and>
   set (find_local_image_refs content) =
     {p \<in> set (md_targets content) \<union> set (img_targets content). \<not> is_url p}"
  unfolding find_local_image_refs_eq
  by (auto simp: distinct_first_seen set_first_seen)

text \<open>
  C1 as stated asks for the order of the first occurrence in the document, whichever
  syntax it uses.  Here \<open>b.png\<close> comes first in the text and second in the result.
\<close>

theorem document_order_counterexample:
  "find_local_image_refs ''<img src=\"b.png\">'' = [''b.png''] \<and>
   find_local_image_refs ''![x](a.png)'' = [''a.png''] \<and>
   find_local_image_refs (''<img src=\"b.png\">'' @ ''![x](a.png)'') = [''a.png'', ''b.png'']"
  by (simp add: extract_defs)

text \<open>
  C10.  The tag is matched without regard to case, the scheme is compared as written: a
  target \<open>HTTP://example.com/a.png\<close> is returned as a local reference, in both syntaxes,
  while the same tag with \<open>http://\<close> gives nothing.
\<close>

theorem upper_case_scheme_is_local:
  "find_local_image_refs ''<IMG SRC=\"HTTP://example.com/a.png\">'' = [''HTTP://example.com/a.png''] \<and>
   find_local_image_refs ''![x](HTTP://example.com/a.png)'' = [''HTTP://example.com/a.png''] \<and>
   find_local_image_refs ''<IMG SRC=\"http://example.com/a.png\">'' = []"
  by (simp add: extract_defs)

section \<open>Facts about the names\<close>

lemma str_nat_digit: "n < 10 \<Longrightarrow> str_nat n = [digit_char n]"
  by (simp add: str_nat.simps [of n])

lemma str_nat_step: "10 \<le> n \<Longrightarrow> str_nat n = str_nat (n div 10) @ [digit_char (n mod 10)]"
  by (simp add: str_nat.simps [of n])

lemma str_nat_two:
  assumes "10 \<le> n" "n < 100"
  shows "str_nat n = [digit_char (n div 10), digit_char (n mod 10)]"
proof -
  have "n div 10 < 10" using assms by simp
  then show ?thesis using assms by (simp add: str_nat_step str_nat_digit)
qed

lemma str_nat_four:
  assumes "1000 \<le> n" "n \<le> 9999"
  shows "str_nat n = [digit_char (n div 1000), digit_char (n div 100 mod 10),
                      digit_char (n div 10 mod 10), digit_char (n mod 10)]"
proof -
  have b: "n div 10 div 10 = n div 100" "n div 100 div 10 = n div 1000"
    by (simp_all add: div_mult2_eq [symmetric])
  have "str_nat (n div 1000) = [digit_char (n div 1000)]"
    using assms by (simp add: str_nat_digit)
  moreover have "str_nat (n div 100) = str_nat (n div 1000) @ [digit_char (n div 100 mod 10)]"
    using str_nat_step [of "n div 100"] assms unfolding b by simp
  moreover have "str_nat (n div 10) = str_nat (n div 100) @ [digit_char (n div 10 mod 10)]"
    using str_nat_step [of "n div 10"] assms unfolding b by simp
  moreover have "str_nat n = str_nat (n div 10) @ [digit_char (n mod 10)]"
    using str_nat_step [of n] assms by simp
  ultimately show ?thesis by simp
qed

lemma pad2_two: "n < 100 \<Longrightarrow> pad2 n = [digit_char (n div 10), digit_char (n mod 10)]"
  by (cases "n < 10") (simp_all add: pad2_def str_nat_digit str_nat_two digit_char_def)

lemma str_nat_head: "\<exists>d rest. d < 10 \<and> str_nat n = digit_char d # rest"
proof (induction n rule: str_nat.induct)
  case (1 n)
  show ?case
  proof (cases "n < 10")
    case True
    then show ?thesis by (auto simp: str_nat_digit)
  next
    case False
    with "1.IH" obtain d rest where "d < 10" "str_nat (n div 10) = digit_char d # rest"
      by auto
    with False show ?thesis by (auto simp: str_nat_step)
  qed
qed

lemma digit_char_less_underscore: "d < 10 \<Longrightarrow> digit_char d < CHR ''_''"
proof -
  assume "d < 10"
  then have "d = 0 \<or> d = 1 \<or> d = 2 \<or> d = 3 \<or> d = 4 \<or> d = 5 \<or> d = 6 \<or> d = 7 \<or> d = 8 \<or> d = 9"
    by arith
  then show ?thesis
    by (elim disjE) (simp_all add: digit_char_def less_char_def)
qed

lemma gist_filename_head: "\<exists>d rest. d < 10 \<and> gist_filename name md_basename now = digit_char d # rest"
proof -
  obtain d rest where "d < 10" "str_nat (year now) = digit_char d # rest"
    using str_nat_head by blast
  then show ?thesis
    by (auto simp: gist_filename_def utc_prefix_def Let_def)
qed

lemma sanitize_filename_head: "\<exists>rest. fst (sanitize_filename path taken) = CHR ''_'' # rest"
proof (cases "CHR ''_'' # replace_space (basename path) |\<in>| taken")
  case False
  then show ?thesis by (simp add: sanitize_filename_def Let_def)
next
  case True
  obtain stem ext where sp: "splitext (CHR ''_'' # replace_space (basename path)) = (stem, ext)"
    by (cases "splitext (CHR ''_'' # replace_space (basename path))")
  from splitext_parts [OF sp]
  have "stem @ ext = CHR ''_'' # replace_space (basename path)"
    and "ext = [] \<or> (\<exists>e. ext = CHR ''.'' # e \<and> CHR ''.'' \<notin> set e)"
    by simp_all
  then obtain rest where "stem = CHR ''_'' # rest"
    by (cases stem) auto
  with True sp show ?thesis
    by (simp add: sanitize_filename_def Let_def candidate_def)
qed

lemma gist_filename_less: "gist_filename name md_basename now < CHR ''_'' # rest"
proof -
  obtain d r where "d < 10" "gist_filename name md_basename now = digit_char d # r"
    using gist_filename_head by blast
  then show ?thesis
    using digit_char_less_underscore [of d] by simp
qed

section \<open>Facts about the loop over the references\<close>

lemma dict_set_keys: "fst ` set (dict_set d k v) = insert k (fst ` set d)"
  by (induction d k v rule: dict_set.induct) auto

lemma dict_set_values: "snd ` set (dict_set d k v) \<subseteq> insert v (snd ` set d)"
  by (induction d k v rule: dict_set.induct) auto

definition valid_ref :: "env \<Rightarrow> string \<Rightarrow> string \<Rightarrow> bool" where
  "valid_ref e md_dir ref =
     (let full_path = abspath e (path_join md_dir (unquote e ref))
      in commonpath md_dir full_path = md_dir \<and> isfile e full_path)"

definition resolve_step :: "env \<Rightarrow> string \<Rightarrow> string \<Rightarrow> resolution \<Rightarrow> resolution" where
  "resolve_step e md_dir ref st = resolve_refs e md_dir [ref] st"

lemma resolve_refs_Cons:
  "resolve_refs e md_dir (ref # refs) st = resolve_refs e md_dir refs (resolve_step e md_dir ref st)"
  by (simp add: resolve_step_def Let_def split: prod.splits)

lemma resolve_step_invalid:
  assumes "\<not> valid_ref e md_dir ref"
  shows "rewrite_map (resolve_step e md_dir ref st) = rewrite_map st"
    and "resolved_images (resolve_step e md_dir ref st) = resolved_images st"
    and "''  Warning: Referenced image outside markdown directory, skipping: '' @ ref
           \<in> set (warnings (resolve_step e md_dir ref st)) \<or>
         ''  Warning: Referenced image not found, skipping: '' @ ref
           \<in> set (warnings (resolve_step e md_dir ref st))"
  using assms by (simp_all add: resolve_step_def valid_ref_def Let_def)

lemma resolve_step_valid:
  assumes "valid_ref e md_dir ref"
  shows "rewrite_map (resolve_step e md_dir ref st) =
           dict_set (rewrite_map st) ref (fst (sanitize_filename (unquote e ref) (taken_names st)))"
    and "resolved_images (resolve_step e md_dir ref st) =
           dict_set (resolved_images st) (fst (sanitize_filename (unquote e ref) (taken_names st)))
             (abspath e (path_join md_dir (unquote e ref)))"
  using assms by (simp_all add: resolve_step_def valid_ref_def Let_def split: prod.splits)

lemma resolve_step_warnings: "set (warnings st) \<subseteq> set (warnings (resolve_step e md_dir ref st))"
  by (auto simp add: resolve_step_def Let_def split: prod.splits)

lemma resolve_refs_warnings_mono:
  "set (warnings st) \<subseteq> set (warnings (resolve_refs e md_dir refs st))"
proof (induction refs arbitrary: st)
  case Nil
  show ?case by simp
next
  case (Cons r refs)
  have "set (warnings st) \<subseteq> set (warnings (resolve_step e md_dir r st))"
    by (rule resolve_step_warnings)
  also have "\<dots> \<subseteq> set (warnings (resolve_refs e md_dir refs (resolve_step e md_dir r st)))"
    by (rule Cons)
  finally show ?case
    by (simp only: resolve_refs_Cons)
qed

lemma resolve_refs_keys:
  "fst ` set (rewrite_map (resolve_refs e md_dir refs st)) =
     fst ` set (rewrite_map st) \<union> {r \<in> set refs. valid_ref e md_dir r}"
proof (induction refs arbitrary: st)
  case Nil
  show ?case by simp
next
  case (Cons r refs)
  have "fst ` set (rewrite_map (resolve_step e md_dir r st)) =
          fst ` set (rewrite_map st) \<union> {x \<in> {r}. valid_ref e md_dir x}"
    by (cases "valid_ref e md_dir r")
      (auto simp: resolve_step_invalid resolve_step_valid dict_set_keys)
  then show ?case
    unfolding resolve_refs_Cons Cons by auto
qed

lemma resolve_refs_warned:
  assumes "ref \<in> set refs" "\<not> valid_ref e md_dir ref"
  shows "''  Warning: Referenced image outside markdown directory, skipping: '' @ ref
           \<in> set (warnings (resolve_refs e md_dir refs st)) \<or>
         ''  Warning: Referenced image not found, skipping: '' @ ref
           \<in> set (warnings (resolve_refs e md_dir refs st))"
  using assms
proof (induction refs arbitrary: st)
  case Nil
  then show ?case by simp
next
  case (Cons r refs)
  show ?case
  proof (cases "ref = r")
    case True
    from resolve_step_invalid(3) [OF Cons.prems(2), of st]
      resolve_refs_warnings_mono [of "resolve_step e md_dir ref st" e md_dir refs]
    show ?thesis
      unfolding resolve_refs_Cons True [symmetric] by blast
  next
    case False
    with Cons.prems have "ref \<in> set refs" by simp
    from Cons.IH [OF this Cons.prems(2)] show ?thesis
      unfolding resolve_refs_Cons .
  qed
qed

definition underscored :: "string \<Rightarrow> bool" where
  "underscored s = (\<exists>t. s = CHR ''_'' # t)"

lemma resolve_step_names:
  assumes m: "\<forall>s \<in> snd ` set (rewrite_map st). underscored s"
    and i: "\<forall>s \<in> fst ` set (resolved_images st). underscored s"
  shows "(\<forall>s \<in> snd ` set (rewrite_map (resolve_step e md_dir r st)). underscored s) \<and>
         (\<forall>s \<in> fst ` set (resolved_images (resolve_step e md_dir r st)). underscored s)"
proof (cases "valid_ref e md_dir r")
  case False
  then show ?thesis using m i by (simp add: resolve_step_invalid)
next
  case True
  let ?n = "fst (sanitize_filename (unquote e r) (taken_names st))"
  have n: "underscored ?n"
    unfolding underscored_def by (rule sanitize_filename_head)
  have a: "snd ` set (rewrite_map (resolve_step e md_dir r st)) \<subseteq> insert ?n (snd ` set (rewrite_map st))"
    unfolding resolve_step_valid(1) [OF True] by (rule dict_set_values)
  have b: "fst ` set (resolved_images (resolve_step e md_dir r st)) = insert ?n (fst ` set (resolved_images st))"
    unfolding resolve_step_valid(2) [OF True] by (rule dict_set_keys)
  have "\<forall>s \<in> insert ?n (snd ` set (rewrite_map st)). underscored s"
    using n m by simp
  then have 1: "\<forall>s \<in> snd ` set (rewrite_map (resolve_step e md_dir r st)). underscored s"
    using a by (meson subsetD)
  have 2: "\<forall>s \<in> fst ` set (resolved_images (resolve_step e md_dir r st)). underscored s"
    unfolding b using n i by simp
  from 1 2 show ?thesis ..
qed

lemma resolve_refs_names:
  assumes "\<forall>s \<in> snd ` set (rewrite_map st). underscored s"
    and "\<forall>s \<in> fst ` set (resolved_images st). underscored s"
  shows "(\<forall>s \<in> snd ` set (rewrite_map (resolve_refs e md_dir refs st)). underscored s) \<and>
         (\<forall>s \<in> fst ` set (resolved_images (resolve_refs e md_dir refs st)). underscored s)"
  using assms
proof (induction refs arbitrary: st)
  case Nil
  then show ?case by simp
next
  case (Cons r refs)
  from resolve_step_names [OF Cons.prems, of e md_dir r]
  have "\<forall>s \<in> snd ` set (rewrite_map (resolve_step e md_dir r st)). underscored s"
    and "\<forall>s \<in> fst ` set (resolved_images (resolve_step e md_dir r st)). underscored s"
    by simp_all
  from Cons.IH [OF this] show ?case
    unfolding resolve_refs_Cons .
qed

lemma run_error_head:
  "run e cmd dir = Inl errs \<Longrightarrow> \<exists>rest. errs = (''Error running: '' @ join_with '' '' cmd) # rest"
  by (auto simp: run_def Let_def split: if_splits)

lemma upload_and_rewrite_not_unexpected:
  "upload_and_rewrite e a st url gist_id md_name content \<noteq>
     Exit1 (warnings st @ [''Error: Unexpected response from gh: '' @ url])"
  unfolding upload_and_rewrite_def Let_def
  by (auto split: sum.splits option.splits dest!: run_error_head)


section \<open>A sample run\<close>

text \<open>
  The inputs of the witnesses: a directory \<open>/d\<close> with \<open>notes.md\<close>, \<open>r.png\<close> and \<open>a.png\<close>,
  subprocesses that succeed, \<open>gh gist create\<close> answering \<open>https://gist.github.com/o/abc\<close>,
  the owner \<open>o\<close>, the clock at 2024-03-05 07:08:09 UTC.  No reference of the samples
  has a \<open>%\<close>, so \<open>unquote\<close> returns it as it is.
\<close>

definition sample_time :: datetime where
  "sample_time = \<lparr>year = 2024, month = 3, day = 5, hour = 7, minute = 8, second = 9\<rparr>"

definition sample_env :: "string \<Rightarrow> env" where
  "sample_env text =
     \<lparr>isfile = (\<lambda>p. p \<in> set [''/d/notes.md'', ''/d/r.png'', ''/d/a.png'']),
      getcwd = ''/d'',
      which = (\<lambda>cmd. True),
      subprocess = (\<lambda>cmd dir.
        \<lparr>returncode = 0,
         proc_stdout = (if take 3 cmd = [''gh'', ''gist'', ''create'']
                        then ''https://gist.github.com/o/abc'' else []),
         proc_stderr = []\<rparr>),
      now_utc = sample_time,
      file_text = (\<lambda>p. text),
      unquote = (\<lambda>s. s),
      staging_dir = ''/tmp/s'',
      mkdtemp = ''/tmp/c'',
      owner_login = (\<lambda>gist_json. Some ''o'')\<rparr>"

definition sample_args :: args where
  "sample_args =
     \<lparr>markdown_file = ''/d/notes.md'', name_override = None, public_flag = False,
      description = None, web_flag = False\<rparr>"

lemmas path_defs = abspath_def normpath_def path_join_def commonpath_def path_comps_def
  dirname_def basename_def rfind_def rstrip_char_def startswith_def

lemmas name_defs = sanitize_filename_def replace_space_def splitext_def candidate_def
  next_free.simps str_nat.simps digit_char_def gist_filename_def utc_prefix_def pad2_def
  endswith_def

lemmas rewrite_defs = rewrite_ref_def raw_url_def quote_def quote_char_def always_safe_def
  utf8_bytes_def percent_def template_def md_ref_re_def img_ref_re_def re_escape_def lower_unfold

lemmas main_defs = main_def after_create_def upload_and_rewrite_def run_def strip_def isspace_def
  check_dependencies_def no_resolution_def

lemma sample_refs:
  "find_local_image_refs ''![a](![b](r.png) ![c](r.png)'' = [''![b](r.png'', ''r.png'']"
  by (simp add: extract_defs)

lemma sample_resolution:
  "resolve_refs (sample_env text) ''/d'' [''![b](r.png'', ''r.png''] no_resolution =
     \<lparr>rewrite_map = [(''r.png'', ''_r.png'')], resolved_images = [(''_r.png'', ''/d/r.png'')],
      taken_names = {|''_r.png''|},
      warnings = [''  Warning: Referenced image not found, skipping: ![b](r.png'']\<rparr>"
  by (simp add: sample_env_def no_resolution_def path_defs name_defs Let_def)

lemma sample_rewrite:
  "rewrite_content ''o'' ''abc'' [(''r.png'', ''_r.png'')] ''![a](![b](r.png) ![c](r.png)'' =
     Some ''![a](![b](https://gist.githubusercontent.com/o/abc/raw/_r.png) ![c](https://gist.githubusercontent.com/o/abc/raw/_r.png)''"
  by (simp add: rewrite_defs Let_def)

lemma sample_main_start:
  "isfile (sample_env text) (markdown_file sample_args) \<and>
   check_dependencies (sample_env text) = None \<and>
   dirname (abspath (sample_env text) (markdown_file sample_args)) = ''/d'' \<and>
   gist_filename (name_override sample_args) (basename (markdown_file sample_args))
     (now_utc (sample_env text)) = ''2024-03-05T070809Z-notes.md''"
  by (simp add: sample_env_def sample_args_def sample_time_def check_dependencies_def
      path_defs name_defs Let_def)

lemma sample_create:
  "run (sample_env text) [''gh'', ''gist'', ''create'', x] None = Inr ''https://gist.github.com/o/abc'' \<and>
   contains ''https://gist.github.com/o/abc'' ''gist.github.com'' \<and>
   last (split_on (CHR ''/'') (rstrip_char (CHR ''/'') ''https://gist.github.com/o/abc'')) = ''abc''"
  by (simp add: sample_env_def run_def strip_def isspace_def startswith_def rstrip_char_def)

lemma sample_upload:
  "rewrite_content ''o'' ''abc'' (rewrite_map st) text = Some rewritten \<Longrightarrow>
   upload_and_rewrite (sample_env text) sample_args st ''https://gist.github.com/o/abc'' ''abc''
     md_name text =
   Done (warnings st)
     \<lparr>gist_url = ''https://gist.github.com/o/abc'', gist_md_name = md_name,
      images = resolved_images st, updated_text = Some rewritten, browser_opened = False\<rparr>"
  by (simp add: upload_and_rewrite_def sample_env_def sample_args_def run_def strip_def Let_def)

lemma nested_refs:
  "find_local_image_refs ''![a](http://x/![b](r.png) ![c](r.png)'' = [''r.png'']"
  by (simp add: extract_defs)

lemma nested_resolution:
  "resolve_refs (sample_env text) ''/d'' [''r.png''] no_resolution =
     \<lparr>rewrite_map = [(''r.png'', ''_r.png'')], resolved_images = [(''_r.png'', ''/d/r.png'')],
      taken_names = {|''_r.png''|}, warnings = []\<rparr>"
  by (simp add: sample_env_def no_resolution_def path_defs name_defs Let_def)

lemma nested_rewrite:
  "rewrite_content ''o'' ''abc'' [(''r.png'', ''_r.png'')] ''![a](http://x/![b](r.png) ![c](r.png)'' =
     Some ''![a](http://x/![b](https://gist.githubusercontent.com/o/abc/raw/_r.png) ![c](https://gist.githubusercontent.com/o/abc/raw/_r.png)''"
  by (simp add: rewrite_defs Let_def)

section \<open>The steps after the creation of the gist\<close>

text \<open>
  The subprocesses of step 2 in the words of the spec: a step is a command with its
  working directory, it fails when its exit status is not zero, and the run stops at the
  first step that fails, after the two lines \<open>run\<close> prints.
\<close>

definition failed :: "env \<Rightarrow> string list \<times> string option \<Rightarrow> bool" where
  "failed e step = (returncode (subprocess e (fst step) (snd step)) \<noteq> 0)"

definition diagnostic :: "env \<Rightarrow> string list \<times> string option \<Rightarrow> string list" where
  "diagnostic e step =
     (''Error running: '' @ join_with '' '' (fst step)) #
     (if proc_stderr (subprocess e (fst step) (snd step)) = [] then []
      else [strip (proc_stderr (subprocess e (fst step) (snd step)))])"

fun first_failure ::
  "env \<Rightarrow> (string list \<times> string option) list \<Rightarrow> (string list \<times> string option) option" where
  "first_failure e [] = None"
| "first_failure e (step # steps) = (if failed e step then Some step else first_failure e steps)"

lemma run_failed: "failed e (cmd, dir) \<Longrightarrow> run e cmd dir = Inl (diagnostic e (cmd, dir))"
  by (simp add: run_def failed_def diagnostic_def Let_def)

lemma run_succeeded:
  "\<not> failed e (cmd, dir) \<Longrightarrow> run e cmd dir = Inr (strip (proc_stdout (subprocess e cmd dir)))"
  by (simp add: run_def failed_def Let_def)

lemma diagnostic_not_unexpected:
  "warnings st @ diagnostic e step \<noteq> warnings st @ [''Error: Unexpected response from gh: '' @ url]"
  by (simp add: diagnostic_def)

lemma upload_and_rewrite_steps:
  "upload_and_rewrite e a st url gist_id md_name content =
     (case first_failure e
             [([''gh'', ''gist'', ''clone'', gist_id, mkdtemp e], None),
              ([''git'', ''add'', ''.''], Some (mkdtemp e)),
              ([''git'', ''commit'', ''-m'', ''Add images''], Some (mkdtemp e)),
              ([''git'', ''push''], Some (mkdtemp e)),
              ([''gh'', ''api'', ''gists/'' @ gist_id], None)] of
        Some step \<Rightarrow> Exit1 (warnings st @ diagnostic e step)
      | None \<Rightarrow>
          (case owner_login e
                  (strip (proc_stdout (subprocess e [''gh'', ''api'', ''gists/'' @ gist_id] None))) of
             None \<Rightarrow> Raised (warnings st)
           | Some owner \<Rightarrow>
               (case rewrite_content owner gist_id (rewrite_map st) content of
                  None \<Rightarrow> TemplateEscape
                | Some rewritten \<Rightarrow>
                    if failed e ([''gh'', ''gist'', ''edit'', gist_id, ''-f'', md_name,
                                  path_join (mkdtemp e) md_name], None)
                    then Exit1 (warnings st @
                           diagnostic e ([''gh'', ''gist'', ''edit'', gist_id, ''-f'', md_name,
                                          path_join (mkdtemp e) md_name], None))
                    else Done (warnings st)
                           \<lparr>gist_url = url, gist_md_name = md_name,
                            images = resolved_images st, updated_text = Some rewritten,
                            browser_opened = web_flag a\<rparr>)))"
proof -
  let ?s1 = "([''gh'', ''gist'', ''clone'', gist_id, mkdtemp e], None :: string option)"
  let ?s2 = "([''git'', ''add'', ''.''], Some (mkdtemp e))"
  let ?s3 = "([''git'', ''commit'', ''-m'', ''Add images''], Some (mkdtemp e))"
  let ?s4 = "([''git'', ''push''], Some (mkdtemp e))"
  let ?s5 = "([''gh'', ''api'', ''gists/'' @ gist_id], None :: string option)"
  let ?s6 = "([''gh'', ''gist'', ''edit'', gist_id, ''-f'', md_name, path_join (mkdtemp e) md_name],
              None :: string option)"
  show ?thesis
  proof (cases "failed e ?s1")
    case True
    then show ?thesis
      by (simp add: upload_and_rewrite_def Let_def run_failed)
  next
    case f1: False
    show ?thesis
    proof (cases "failed e ?s2")
      case True
      with f1 show ?thesis
        by (simp add: upload_and_rewrite_def Let_def run_failed run_succeeded)
    next
      case f2: False
      show ?thesis
      proof (cases "failed e ?s3")
        case True
        with f1 f2 show ?thesis
          by (simp add: upload_and_rewrite_def Let_def run_failed run_succeeded)
      next
        case f3: False
        show ?thesis
        proof (cases "failed e ?s4")
          case True
          with f1 f2 f3 show ?thesis
            by (simp add: upload_and_rewrite_def Let_def run_failed run_succeeded)
        next
          case f4: False
          show ?thesis
          proof (cases "failed e ?s5")
            case True
            with f1 f2 f3 f4 show ?thesis
              by (simp add: upload_and_rewrite_def Let_def run_failed run_succeeded)
          next
            case f5: False
            show ?thesis
            proof (cases "failed e ?s6")
              case True
              with f1 f2 f3 f4 f5 show ?thesis
                by (simp add: upload_and_rewrite_def Let_def run_failed run_succeeded
                    split: option.splits)
            next
              case False
              with f1 f2 f3 f4 f5 show ?thesis
                by (simp add: upload_and_rewrite_def Let_def run_failed run_succeeded
                    split: option.splits)
            qed
          qed
        qed
      qed
    qed
  qed
qed

definition clone_fails_env :: "string \<Rightarrow> env" where
  "clone_fails_env doc =
     (sample_env doc)
       \<lparr>subprocess := (\<lambda>cmd dir.
          if take 3 cmd = [''gh'', ''gist'', ''clone'']
          then \<lparr>returncode = 128, proc_stdout = [], proc_stderr = ''fatal: clone failed''\<rparr>
          else subprocess (sample_env doc) cmd dir)\<rparr>"

definition sample_resolved :: resolution where
  "sample_resolved =
     \<lparr>rewrite_map = [(''r.png'', ''_r.png'')], resolved_images = [(''_r.png'', ''/d/r.png'')],
      taken_names = {|''_r.png''|}, warnings = []\<rparr>"

lemma single_refs: "find_local_image_refs ''![c](r.png)'' = [''r.png'']"
  by (simp add: extract_defs)

lemma single_resolution:
  "resolve_refs (clone_fails_env doc) ''/d'' [''r.png''] no_resolution = sample_resolved"
  by (simp add: clone_fails_env_def sample_env_def sample_resolved_def no_resolution_def
      path_defs name_defs Let_def)

lemma single_rewrite:
  "rewrite_content ''o'' ''abc'' [(''r.png'', ''_r.png'')] ''![c](r.png)'' =
     Some ''![c](https://gist.githubusercontent.com/o/abc/raw/_r.png)''"
  by (simp add: rewrite_defs Let_def)

lemma clone_fails_start:
  "isfile (clone_fails_env doc) (markdown_file sample_args) \<and>
   check_dependencies (clone_fails_env doc) = None \<and>
   dirname (abspath (clone_fails_env doc) (markdown_file sample_args)) = ''/d'' \<and>
   gist_filename (name_override sample_args) (basename (markdown_file sample_args))
     (now_utc (clone_fails_env doc)) = ''2024-03-05T070809Z-notes.md'' \<and>
   file_text (clone_fails_env doc) (markdown_file sample_args) = doc \<and>
   staging_dir (clone_fails_env doc) = ''/tmp/s''"
  by (simp add: clone_fails_env_def sample_env_def sample_args_def sample_time_def
      check_dependencies_def path_defs name_defs Let_def)

lemma clone_fails_create:
  "run (clone_fails_env doc) [''gh'', ''gist'', ''create'', ''/tmp/s/2024-03-05T070809Z-notes.md'']
     None = Inr ''https://gist.github.com/o/abc''"
  by (simp add: clone_fails_env_def sample_env_def run_def strip_def isspace_def)

lemma clone_fails_clone:
  "failed (clone_fails_env doc) ([''gh'', ''gist'', ''clone'', ''abc'', ''/tmp/c''], None) \<and>
   mkdtemp (clone_fails_env doc) = ''/tmp/c'' \<and>
   diagnostic (clone_fails_env doc) ([''gh'', ''gist'', ''clone'', ''abc'', ''/tmp/c''], None) =
     [''Error running: gh gist clone abc /tmp/c'', ''fatal: clone failed'']"
  by (simp add: clone_fails_env_def sample_env_def failed_def diagnostic_def strip_def isspace_def)

section \<open>Claims about the names\<close>

text \<open>
  C6, as the code has it.  The name of the markdown file in the gist is the time stamp
  followed by the \<open>--name\<close> override when one is given and is not empty, by the basename of
  the input file otherwise, with \<open>.md\<close> appended unless the name chosen ends in \<open>.md\<close>.  For
  a clock in the years 1000 to 9999 the time stamp reads \<open>YYYY-MM-DDTHHMMSSZ-\<close>.
\<close>

theorem gist_filename_shape:
  "gist_filename name md_basename now =
     utc_prefix now @
     (let chosen = (case name of None \<Rightarrow> md_basename
                    | Some n \<Rightarrow> if n = [] then md_basename else n)
      in if endswith chosen ''.md'' then chosen else chosen @ ''.md'') \<and>
   (1000 \<le> year now \<and> year now \<le> 9999 \<and> month now < 100 \<and> day now < 100 \<and>
    hour now < 100 \<and> minute now < 100 \<and> second now < 100 \<longrightarrow>
    utc_prefix now =
      [digit_char (year now div 1000), digit_char (year now div 100 mod 10),
       digit_char (year now div 10 mod 10), digit_char (year now mod 10), CHR ''-'',
       digit_char (month now div 10), digit_char (month now mod 10), CHR ''-'',
       digit_char (day now div 10), digit_char (day now mod 10), CHR ''T'',
       digit_char (hour now div 10), digit_char (hour now mod 10),
       digit_char (minute now div 10), digit_char (minute now mod 10),
       digit_char (second now div 10), digit_char (second now mod 10), CHR ''Z'', CHR ''-''])"
proof -
  have "gist_filename name md_basename now =
     utc_prefix now @
     (let chosen = (case name of None \<Rightarrow> md_basename
                    | Some n \<Rightarrow> if n = [] then md_basename else n)
      in if endswith chosen ''.md'' then chosen else chosen @ ''.md'')"
    by (simp add: gist_filename_def Let_def split: option.splits)
  moreover have "1000 \<le> year now \<and> year now \<le> 9999 \<and> month now < 100 \<and> day now < 100 \<and>
    hour now < 100 \<and> minute now < 100 \<and> second now < 100 \<longrightarrow>
    utc_prefix now =
      [digit_char (year now div 1000), digit_char (year now div 100 mod 10),
       digit_char (year now div 10 mod 10), digit_char (year now mod 10), CHR ''-'',
       digit_char (month now div 10), digit_char (month now mod 10), CHR ''-'',
       digit_char (day now div 10), digit_char (day now mod 10), CHR ''T'',
       digit_char (hour now div 10), digit_char (hour now mod 10),
       digit_char (minute now div 10), digit_char (minute now mod 10),
       digit_char (second now div 10), digit_char (second now mod 10), CHR ''Z'', CHR ''-'']"
    by (simp add: utc_prefix_def str_nat_four pad2_two)
  ultimately show ?thesis ..
qed

text \<open>\<open>--name report\<close> on \<open>notes.md\<close>, and no override.\<close>

theorem gist_filename_shape_witness:
  "gist_filename (Some ''report'') ''notes.md'' sample_time = ''2024-03-05T070809Z-report.md'' \<and>
   gist_filename None ''notes.md'' sample_time = ''2024-03-05T070809Z-notes.md'' \<and>
   1000 \<le> year sample_time \<and> year sample_time \<le> 9999"
  using gist_filename_shape [of "Some ''report''" "''notes.md''" sample_time]
    gist_filename_shape [of None "''notes.md''" sample_time]
  by (simp add: sample_time_def endswith_def digit_char_def)

text \<open>
  C6 as stated takes the override whenever one is given.  \<open>--name ""\<close> gives an override
  that is empty; \<open>args.name if args.name else md_basename\<close> then takes the basename.
\<close>

theorem empty_name_override_counterexample:
  "gist_filename (Some []) ''notes.md'' sample_time = ''2024-03-05T070809Z-notes.md'' \<and>
   gist_filename (Some []) ''notes.md'' sample_time \<noteq> utc_prefix sample_time @ [] @ ''.md''"
  by (simp add: sample_time_def name_defs Let_def)

text \<open>
  C8.  The name of the markdown file in the gist starts with a digit and every sanitized
  name starts with \<open>_\<close>, so the markdown name is smaller, in the lexicographic order on
  code points, than every name \<open>sanitize_filename\<close> returns, and so than every name in the
  rewrite map and every name under which an image is uploaded.
\<close>

theorem markdown_name_sorts_first:
  "gist_filename name md_basename now < fst (sanitize_filename path taken) \<and>
   (\<forall>s \<in> snd ` set (rewrite_map (resolve_refs e md_dir refs no_resolution)) \<union>
          fst ` set (resolved_images (resolve_refs e md_dir refs no_resolution)).
      gist_filename name md_basename now < s)"
proof -
  have a: "gist_filename name md_basename now < fst (sanitize_filename path taken)"
    using sanitize_filename_head [of path taken] gist_filename_less by metis
  have "(\<forall>s \<in> snd ` set (rewrite_map (resolve_refs e md_dir refs no_resolution)). underscored s) \<and>
        (\<forall>s \<in> fst ` set (resolved_images (resolve_refs e md_dir refs no_resolution)). underscored s)"
    by (rule resolve_refs_names) (simp_all add: no_resolution_def)
  then have "\<forall>s \<in> snd ` set (rewrite_map (resolve_refs e md_dir refs no_resolution)) \<union>
          fst ` set (resolved_images (resolve_refs e md_dir refs no_resolution)). underscored s"
    by blast
  then have b: "\<forall>s \<in> snd ` set (rewrite_map (resolve_refs e md_dir refs no_resolution)) \<union>
          fst ` set (resolved_images (resolve_refs e md_dir refs no_resolution)).
      gist_filename name md_basename now < s"
    unfolding underscored_def using gist_filename_less by metis
  from a b show ?thesis ..
qed

text \<open>One image \<open>r.png\<close> beside \<open>notes.md\<close>.\<close>

theorem markdown_name_sorts_first_witness:
  "snd ` set (rewrite_map (resolve_refs (sample_env []) ''/d'' [''r.png''] no_resolution)) \<union>
   fst ` set (resolved_images (resolve_refs (sample_env []) ''/d'' [''r.png''] no_resolution))
     = {''_r.png''} \<and>
   gist_filename None ''notes.md'' sample_time = ''2024-03-05T070809Z-notes.md'' \<and>
   ''2024-03-05T070809Z-notes.md'' < ''_r.png''"
proof -
  have a: "resolve_refs (sample_env []) ''/d'' [''r.png''] no_resolution =
     \<lparr>rewrite_map = [(''r.png'', ''_r.png'')], resolved_images = [(''_r.png'', ''/d/r.png'')],
      taken_names = {|''_r.png''|}, warnings = []\<rparr>"
    by (simp add: sample_env_def no_resolution_def path_defs name_defs Let_def)
  have b: "gist_filename None ''notes.md'' sample_time = ''2024-03-05T070809Z-notes.md''"
    by (simp add: sample_time_def name_defs Let_def)
  from markdown_name_sorts_first [of None "''notes.md''" sample_time _ _ "sample_env []" "''/d''"
      "[''r.png'']"]
  have "\<forall>s \<in> snd ` set (rewrite_map (resolve_refs (sample_env []) ''/d'' [''r.png''] no_resolution)) \<union>
          fst ` set (resolved_images (resolve_refs (sample_env []) ''/d'' [''r.png''] no_resolution)).
      gist_filename None ''notes.md'' sample_time < s"
    by blast
  then have "''2024-03-05T070809Z-notes.md'' < ''_r.png''"
    unfolding a b by simp
  with a b show ?thesis by simp
qed

section \<open>Claims about the run\<close>

text \<open>
  C4, as the code has it.  An extracted reference whose decoded path, made absolute from
  the directory of the markdown file, fails the \<open>commonpath\<close> test or is not an existing
  file, is skipped with a warning on the standard error and is not a key of the rewrite
  map: no substitution is run for it.
\<close>

theorem skipped_refs_not_in_rewrite_map:
  assumes "ref \<in> set image_refs"
    and "full_path = abspath e (path_join md_dir (unquote e ref))"
    and "commonpath md_dir full_path \<noteq> md_dir \<or> \<not> isfile e full_path"
  shows "ref \<notin> fst ` set (rewrite_map (resolve_refs e md_dir image_refs no_resolution)) \<and>
         (''  Warning: Referenced image outside markdown directory, skipping: '' @ ref
            \<in> set (warnings (resolve_refs e md_dir image_refs no_resolution)) \<or>
          ''  Warning: Referenced image not found, skipping: '' @ ref
            \<in> set (warnings (resolve_refs e md_dir image_refs no_resolution)))"
proof -
  have inv: "\<not> valid_ref e md_dir ref"
    using assms(2,3) by (auto simp: valid_ref_def Let_def)
  have "ref \<notin> fst ` set (rewrite_map (resolve_refs e md_dir image_refs no_resolution))"
    unfolding resolve_refs_keys using inv by (simp add: no_resolution_def)
  with resolve_refs_warned [OF assms(1) inv] show ?thesis by blast
qed

text \<open>The reference \<open>../../etc/hosts\<close> of the spec, from the directory \<open>/d\<close>.\<close>

theorem skipped_refs_not_in_rewrite_map_witness:
  "''../../etc/hosts'' \<in> set [''../../etc/hosts'', ''r.png''] \<and>
   abspath (sample_env []) (path_join ''/d'' (unquote (sample_env []) ''../../etc/hosts'')) = ''/etc/hosts'' \<and>
   commonpath ''/d'' ''/etc/hosts'' \<noteq> ''/d'' \<and>
   ''../../etc/hosts'' \<notin>
     fst ` set (rewrite_map (resolve_refs (sample_env []) ''/d'' [''../../etc/hosts'', ''r.png'']
                               no_resolution)) \<and>
   rewrite_map (resolve_refs (sample_env []) ''/d'' [''../../etc/hosts'', ''r.png''] no_resolution)
     = [(''r.png'', ''_r.png'')]"
proof -
  have a: "''../../etc/hosts'' \<in> set [''../../etc/hosts'', ''r.png'']"
    by simp
  have b: "''/etc/hosts'' =
      abspath (sample_env []) (path_join ''/d'' (unquote (sample_env []) ''../../etc/hosts''))"
    by (simp add: sample_env_def path_defs Let_def)
  have c: "commonpath ''/d'' ''/etc/hosts'' \<noteq> ''/d''"
    by (simp add: path_defs)
  then have c': "commonpath ''/d'' ''/etc/hosts'' \<noteq> ''/d'' \<or> \<not> isfile (sample_env []) ''/etc/hosts''"
    by simp
  have d: "rewrite_map (resolve_refs (sample_env []) ''/d'' [''../../etc/hosts'', ''r.png'']
             no_resolution) = [(''r.png'', ''_r.png'')]"
    by (simp add: sample_env_def no_resolution_def path_defs name_defs Let_def)
  from skipped_refs_not_in_rewrite_map [OF a b c'] b c d show ?thesis
    by simp
qed

text \<open>
  C4 as stated adds that a skipped reference is never rewritten.  In the sample run on
  \<open>![a](![b](r.png) ![c](r.png)\<close> the reference \<open>![b](r.png\<close> is skipped with a warning, and
  the substitution for \<open>r.png\<close> changes the text of that reference all the same.
\<close>

theorem skipped_reference_is_altered:
  "main (sample_env ''![a](![b](r.png) ![c](r.png)'') sample_args =
     Done [''  Warning: Referenced image not found, skipping: ![b](r.png'']
       \<lparr>gist_url = ''https://gist.github.com/o/abc'',
        gist_md_name = ''2024-03-05T070809Z-notes.md'',
        images = [(''_r.png'', ''/d/r.png'')],
        updated_text = Some ''![a](![b](https://gist.githubusercontent.com/o/abc/raw/_r.png) ![c](https://gist.githubusercontent.com/o/abc/raw/_r.png)'',
        browser_opened = False\<rparr>"
proof -
  let ?t = "''![a](![b](r.png) ![c](r.png)''"
  have inputs: "file_text (sample_env ?t) (markdown_file sample_args) = ?t"
    "public_flag sample_args = False" "description sample_args = None"
    by (simp_all add: sample_env_def sample_args_def)
  show ?thesis
    unfolding main_def Let_def
    by (simp add: sample_main_start inputs sample_refs sample_resolution sample_create
        after_create_def sample_upload sample_rewrite
        del: rewrite_content.simps resolve_refs.simps contains.simps)
qed

text \<open>
  C9, as the code has it.  For every answer \<open>url\<close> of \<open>gh gist create\<close>: the run ends at
  the check of line 160, with \<open>sys.exit(1)\<close> and the line
  \<open>Error: Unexpected response from gh: url\<close> on the standard error, exactly when \<open>url\<close> does
  not contain \<open>gist.github.com\<close>.  When it does, the run goes on: with an empty rewrite map
  it ends well; otherwise it runs \<open>gh gist clone\<close>, \<open>git add\<close>, \<open>git commit\<close>, \<open>git push\<close>
  and \<open>gh api\<close> in this order and ends with \<open>sys.exit(1)\<close> and the lines of \<open>run\<close> at the
  first of them that fails; then it reads the owner, rewrites the text, and runs
  \<open>gh gist edit\<close>, ending with \<open>sys.exit(1)\<close> if that fails and well, with the rewritten
  text published, if it succeeds.
\<close>

theorem unexpected_response_iff:
  "(after_create e a st md_name content url =
      Exit1 (warnings st @ [''Error: Unexpected response from gh: '' @ url]))
     = (\<not> contains url ''gist.github.com'') \<and>
   (contains url ''gist.github.com'' \<longrightarrow>
      (let gist_id = last (split_on (CHR ''/'') (rstrip_char (CHR ''/'') url));
           clone_dir = mkdtemp e;
           steps = [([''gh'', ''gist'', ''clone'', gist_id, clone_dir], None),
                    ([''git'', ''add'', ''.''], Some clone_dir),
                    ([''git'', ''commit'', ''-m'', ''Add images''], Some clone_dir),
                    ([''git'', ''push''], Some clone_dir),
                    ([''gh'', ''api'', ''gists/'' @ gist_id], None)];
           edit = ([''gh'', ''gist'', ''edit'', gist_id, ''-f'', md_name,
                    path_join clone_dir md_name], None)
       in after_create e a st md_name content url =
          (if rewrite_map st = []
           then Done (warnings st)
                  \<lparr>gist_url = url, gist_md_name = md_name, images = [],
                   updated_text = None, browser_opened = web_flag a\<rparr>
           else case first_failure e steps of
                  Some step \<Rightarrow> Exit1 (warnings st @ diagnostic e step)
                | None \<Rightarrow>
                    (case owner_login e
                            (strip (proc_stdout
                               (subprocess e [''gh'', ''api'', ''gists/'' @ gist_id] None))) of
                       None \<Rightarrow> Raised (warnings st)
                     | Some owner \<Rightarrow>
                         (case rewrite_content owner gist_id (rewrite_map st) content of
                            None \<Rightarrow> TemplateEscape
                          | Some rewritten \<Rightarrow>
                              if failed e edit
                              then Exit1 (warnings st @ diagnostic e edit)
                              else Done (warnings st)
                                     \<lparr>gist_url = url, gist_md_name = md_name,
                                      images = resolved_images st,
                                      updated_text = Some rewritten,
                                      browser_opened = web_flag a\<rparr>)))))"
proof -
  have a: "(after_create e a st md_name content url =
      Exit1 (warnings st @ [''Error: Unexpected response from gh: '' @ url]))
     = (\<not> contains url ''gist.github.com'')"
    using upload_and_rewrite_not_unexpected [of e a st url _ md_name content]
    by (auto simp: after_create_def Let_def)
  moreover have "contains url ''gist.github.com'' \<Longrightarrow>
      after_create e a st md_name content url =
        (if rewrite_map st = []
         then Done (warnings st)
                \<lparr>gist_url = url, gist_md_name = md_name, images = [],
                 updated_text = None, browser_opened = web_flag a\<rparr>
         else upload_and_rewrite e a st url
                (last (split_on (CHR ''/'') (rstrip_char (CHR ''/'') url))) md_name content)"
    by (simp add: after_create_def Let_def)
  ultimately show ?thesis
    unfolding Let_def upload_and_rewrite_steps [symmetric] by blast
qed

text \<open>
  An answer that is not a URL; an answer that is one, with one image, in a run where
  every subprocess succeeds; the same with \<open>gh gist clone\<close> failing.
\<close>

theorem unexpected_response_iff_witness:
  "\<not> contains ''not a url'' ''gist.github.com'' \<and>
   after_create (sample_env []) sample_args no_resolution ''n.md'' [] ''not a url'' =
     Exit1 [''Error: Unexpected response from gh: not a url''] \<and>
   contains ''https://gist.github.com/o/abc'' ''gist.github.com'' \<and>
   rewrite_map sample_resolved \<noteq> [] \<and>
   after_create (sample_env ''![c](r.png)'') sample_args sample_resolved ''n.md'' ''![c](r.png)''
       ''https://gist.github.com/o/abc'' =
     Done [] \<lparr>gist_url = ''https://gist.github.com/o/abc'', gist_md_name = ''n.md'',
               images = [(''_r.png'', ''/d/r.png'')],
               updated_text = Some ''![c](https://gist.githubusercontent.com/o/abc/raw/_r.png)'',
               browser_opened = False\<rparr> \<and>
   after_create (clone_fails_env ''![c](r.png)'') sample_args sample_resolved ''n.md''
       ''![c](r.png)'' ''https://gist.github.com/o/abc'' =
     Exit1 [''Error running: gh gist clone abc /tmp/c'', ''fatal: clone failed'']"
proof -
  have a: "\<not> contains ''not a url'' ''gist.github.com''"
    by (simp add: startswith_def)
  have b: "contains ''https://gist.github.com/o/abc'' ''gist.github.com''"
    by (simp add: startswith_def)
  have gid: "last (split_on (CHR ''/'') (rstrip_char (CHR ''/'') ''https://gist.github.com/o/abc'')) = ''abc''"
    by (simp add: rstrip_char_def)
  have c: "warnings no_resolution = []" "web_flag sample_args = False"
    "rewrite_map sample_resolved = [(''r.png'', ''_r.png'')]" "warnings sample_resolved = []"
    "resolved_images sample_resolved = [(''_r.png'', ''/d/r.png'')]"
    by (simp_all add: no_resolution_def sample_args_def sample_resolved_def)
  have ok: "\<And>cmd dir. \<not> failed (sample_env ''![c](r.png)'') (cmd, dir)"
    "mkdtemp (sample_env ''![c](r.png)'') = ''/tmp/c''"
    "\<And>j. owner_login (sample_env ''![c](r.png)'') j = Some ''o''"
    by (simp_all add: sample_env_def failed_def)
  from unexpected_response_iff [of "sample_env []" sample_args no_resolution "''n.md''" "[]"
      "''not a url''"] a
  have d: "after_create (sample_env []) sample_args no_resolution ''n.md'' [] ''not a url'' =
     Exit1 [''Error: Unexpected response from gh: not a url'']"
    by (simp add: c del: contains.simps)
  from unexpected_response_iff [of "sample_env ''![c](r.png)''" sample_args sample_resolved
      "''n.md''" "''![c](r.png)''" "''https://gist.github.com/o/abc''"] b
  have e: "after_create (sample_env ''![c](r.png)'') sample_args sample_resolved ''n.md''
       ''![c](r.png)'' ''https://gist.github.com/o/abc'' =
     Done [] \<lparr>gist_url = ''https://gist.github.com/o/abc'', gist_md_name = ''n.md'',
               images = [(''_r.png'', ''/d/r.png'')],
               updated_text = Some ''![c](https://gist.githubusercontent.com/o/abc/raw/_r.png)'',
               browser_opened = False\<rparr>"
    by (simp add: c gid ok single_rewrite Let_def del: contains.simps rewrite_content.simps)
  from unexpected_response_iff [of "clone_fails_env ''![c](r.png)''" sample_args sample_resolved
      "''n.md''" "''![c](r.png)''" "''https://gist.github.com/o/abc''"] b
  have f: "after_create (clone_fails_env ''![c](r.png)'') sample_args sample_resolved ''n.md''
       ''![c](r.png)'' ''https://gist.github.com/o/abc'' =
     Exit1 [''Error running: gh gist clone abc /tmp/c'', ''fatal: clone failed'']"
    by (simp add: c gid clone_fails_clone Let_def del: contains.simps rewrite_content.simps)
  from a b c(3) d e f show ?thesis by simp
qed

text \<open>
  C9 as stated makes the missing \<open>gist.github.com\<close> the only way to a non-zero exit status
  with a diagnostic.  Here the answer of \<open>gh gist create\<close> contains \<open>gist.github.com\<close>,
  \<open>gh gist clone\<close> fails, and the run ends with \<open>sys.exit(1)\<close> after two lines on the
  standard error.
\<close>

theorem failed_clone_counterexample:
  "run (clone_fails_env ''![c](r.png)'')
     [''gh'', ''gist'', ''create'', ''/tmp/s/2024-03-05T070809Z-notes.md''] None =
     Inr ''https://gist.github.com/o/abc'' \<and>
   contains ''https://gist.github.com/o/abc'' ''gist.github.com'' \<and>
   main (clone_fails_env ''![c](r.png)'') sample_args =
     Exit1 [''Error running: gh gist clone abc /tmp/c'', ''fatal: clone failed'']"
proof -
  have flags: "public_flag sample_args = False" "description sample_args = None"
    by (simp_all add: sample_args_def)
  have c: "contains ''https://gist.github.com/o/abc'' ''gist.github.com''"
    "last (split_on (CHR ''/'') (rstrip_char (CHR ''/'') ''https://gist.github.com/o/abc'')) = ''abc''"
    by (simp_all add: startswith_def rstrip_char_def)
  have st: "rewrite_map sample_resolved \<noteq> []" "warnings sample_resolved = []"
    by (simp_all add: sample_resolved_def)
  have "main (clone_fails_env ''![c](r.png)'') sample_args =
     Exit1 [''Error running: gh gist clone abc /tmp/c'', ''fatal: clone failed'']"
    unfolding main_def Let_def
    by (simp add: clone_fails_start flags single_refs single_resolution path_join_def
        startswith_def clone_fails_create after_create_def c st upload_and_rewrite_steps
        clone_fails_clone
        del: rewrite_content.simps resolve_refs.simps contains.simps)
  with clone_fails_create c(1) show ?thesis by blast
qed



end
